theory Spec2Isabelle
  imports Complex_Main "HOL-Library.Word"
begin

unbundle bit_operations_syntax

section \<open>Pixel buffers\<close>

text \<open>
  A PIL image as the codec sees it: its mode, its size (width, height) and its samples as
  the rows of the numpy array \<open>np.array(image)\<close> (shape height x width). The codec is fed
  8-bit greyscale buffers (mode "L"); a mode "1" image stores 0 for black and 255 for white.
\<close>

type_synonym byte = "8 word"

datatype image_mode = Mode_1 | Mode_L

record image =
  img_mode :: image_mode
  img_size :: "nat \<times> nat"
  img_data :: "byte list list"

definition well_formed :: "image \<Rightarrow> bool" where
  "well_formed img \<longleftrightarrow>
     length (img_data img) = snd (img_size img) \<and>
     list_all (\<lambda>row. length row = fst (img_size img)) (img_data img)"

text \<open>\<open>image.convert("L")\<close>: the samples of a mode "1" image are already 0 or 255.\<close>

definition convert_L :: "image \<Rightarrow> image" where
  "convert_L img = img\<lparr>img_mode := Mode_L\<rparr>"

section \<open>Four-level quantisation (xtc_format.quantize_to_4_levels)\<close>

text \<open>
  numpy's vectorised operations on a two-dimensional array: an elementwise comparison gives
  a boolean mask, \<open>&\<close> combines two masks, and \<open>output[mask] = v\<close> overwrites the
  masked cells.
\<close>

definition np_mask :: "(byte \<Rightarrow> bool) \<Rightarrow> byte list list \<Rightarrow> bool list list" where
  "np_mask p pixels = map (map p) pixels"

definition np_and :: "bool list list \<Rightarrow> bool list list \<Rightarrow> bool list list" where
  "np_and a b = map (\<lambda>(r, s). map (\<lambda>(x, y). x \<and> y) (zip r s)) (zip a b)"

definition np_assign :: "byte list list \<Rightarrow> bool list list \<Rightarrow> byte \<Rightarrow> byte list list" where
  "np_assign out msk v =
     map (\<lambda>(r, m). map (\<lambda>(x, b). if b then v else x) (zip r m)) (zip out msk)"

definition np_zeros_like :: "byte list list \<Rightarrow> byte list list" where
  "np_zeros_like pixels = map (map (\<lambda>_. 0)) pixels"

definition quantize_to_4_levels :: "image \<Rightarrow> byte list list" where
  "quantize_to_4_levels image0 =
     (let image = (if img_mode image0 \<noteq> Mode_L then convert_L image0 else image0);
          pixels = img_data image;
          output = np_zeros_like pixels;
          output = np_assign output (np_mask (\<lambda>p. p \<le> 42) pixels) 3;
          output = np_assign output
                     (np_and (np_mask (\<lambda>p. p > 42) pixels) (np_mask (\<lambda>p. p \<le> 127) pixels)) 2;
          output = np_assign output
                     (np_and (np_mask (\<lambda>p. p > 127) pixels) (np_mask (\<lambda>p. p \<le> 212) pixels)) 1;
          output = np_assign output (np_mask (\<lambda>p. p > 212) pixels) 0
      in output)"

text \<open>The level of one sample: the quantisation of the 1 x 1 buffer holding it.\<close>

definition pixel_image :: "byte \<Rightarrow> image" where
  "pixel_image s = \<lparr>img_mode = Mode_L, img_size = (1, 1), img_data = [[s]]\<rparr>"

definition quantize_sample :: "byte \<Rightarrow> byte" where
  "quantize_sample s = quantize_to_4_levels (pixel_image s) ! 0 ! 0"

text \<open>The step function of the format description, for comparison.\<close>

definition level_of :: "byte \<Rightarrow> byte" where
  "level_of s = (if s \<le> 42 then 3 else if s \<le> 127 then 2 else if s \<le> 212 then 1 else 0)"

section \<open>Configuration (config.py)\<close>

definition DISPLAY_WIDTH :: int where "DISPLAY_WIDTH = 480"
definition DISPLAY_HEIGHT :: int where "DISPLAY_HEIGHT = 800"
definition DEFAULT_FONT_SIZE :: int where "DEFAULT_FONT_SIZE = 34"
definition PARAGRAPH_SPACING :: int where "PARAGRAPH_SPACING = 16"
definition MARGIN_TOP :: int where "MARGIN_TOP = 20"
definition MARGIN_BOTTOM :: int where "MARGIN_BOTTOM = 40"
definition MARGIN_LEFT :: int where "MARGIN_LEFT = 16"
definition MARGIN_RIGHT :: int where "MARGIN_RIGHT = 16"

subsection \<open>Python floats\<close>

text \<open>
  A finite binary64 value is \<open>m * 2 ^ e\<close> for integers \<open>m\<close> and \<open>e\<close> with
  \<open>\<bar>m\<bar> \<le> 2 ^ 53\<close>. The product of an int and a float converts the int (rounding it
  to 53 significant bits, ties to even), multiplies exactly and rounds again. The exponent
  range is not modelled: the values here are font sizes times a ratio between 0.9 and
  1.8, far from the overflow and underflow thresholds of the format.
\<close>

datatype pyfloat = PyFloat int int

function bit_length :: "int \<Rightarrow> nat" where
  "bit_length n = (if n \<le> 0 then 0 else Suc (bit_length (n div 2)))"
  by pat_completeness auto
termination
  by (relation "measure nat") auto

declare bit_length.simps [simp del]

text \<open>\<open>n / 2 ^ s\<close> rounded to the nearest integer, ties to even, for \<open>n \<ge> 0\<close>.\<close>

definition round_half_even :: "int \<Rightarrow> nat \<Rightarrow> int" where
  "round_half_even n s =
     (let q = n div 2 ^ s; r = n mod 2 ^ s
      in if 2 * r > 2 ^ s \<or> (2 * r = 2 ^ s \<and> odd q) then q + 1 else q)"

definition float_round :: "int \<Rightarrow> int \<Rightarrow> pyfloat" where
  "float_round m e =
     (let n = \<bar>m\<bar>; s = bit_length n - 53
      in PyFloat (sgn m * round_half_even n s) (e + int s))"

definition float_of_int :: "int \<Rightarrow> pyfloat" where
  "float_of_int n = float_round n 0"

fun float_mul :: "pyfloat \<Rightarrow> pyfloat \<Rightarrow> pyfloat" where
  "float_mul (PyFloat m1 e1) (PyFloat m2 e2) = float_round (m1 * m2) (e1 + e2)"

text \<open>\<open>int(x)\<close> truncates towards zero.\<close>

fun py_int :: "pyfloat \<Rightarrow> int" where
  "py_int (PyFloat m e) =
     (if 0 \<le> e then m * 2 ^ nat e else sgn m * (\<bar>m\<bar> div 2 ^ nat (- e)))"

text \<open>The binary64 literals of config.py.\<close>

definition LINE_HEIGHT_RATIO :: pyfloat where
  "LINE_HEIGHT_RATIO = PyFloat 6305039478318694 (- 52)"  \<comment> \<open>1.4\<close>

definition HEADING_SIZE_MULTIPLIERS :: "(int \<times> pyfloat) list" where
  "HEADING_SIZE_MULTIPLIERS =
     [(1, PyFloat 8106479329266893 (- 52)),   \<comment> \<open>1.8\<close>
      (2, PyFloat 6755399441055744 (- 52)),   \<comment> \<open>1.5\<close>
      (3, PyFloat 5854679515581645 (- 52)),   \<comment> \<open>1.3\<close>
      (4, PyFloat 5179139571476070 (- 52)),   \<comment> \<open>1.15\<close>
      (5, PyFloat 4503599627370496 (- 52)),   \<comment> \<open>1.0\<close>
      (6, PyFloat 8106479329266893 (- 53))]"  \<comment> \<open>0.9\<close>

definition get_heading_sizes :: "int \<Rightarrow> (int \<times> int) list" where
  "get_heading_sizes base_size =
     map (\<lambda>(level, mult). (level, py_int (float_mul (float_of_int base_size) mult)))
       HEADING_SIZE_MULTIPLIERS"

section \<open>Text blocks (epub_parser.py)\<close>

text \<open>A Python \<open>str\<close> is a sequence of code points.\<close>

type_synonym pystr = "nat list"

definition pystr :: "string \<Rightarrow> pystr" where
  "pystr s = map of_char s"

record text_style =
  style_font_size :: int
  style_bold :: bool
  style_italic :: bool
  style_is_heading :: bool
  style_heading_level :: int
  style_indent :: int

record text_block =
  block_text :: pystr
  block_style :: text_style
  block_type :: string

section \<open>Text measuring and wrapping (text_renderer.py)\<close>

type_synonym path = string

record font_family =
  ff_regular :: path
  ff_bold :: "path option"
  ff_italic :: "path option"
  ff_bold_italic :: "path option"

definition get_path :: "font_family \<Rightarrow> bool \<Rightarrow> bool \<Rightarrow> path" where
  "get_path ff bold italic =
     (if bold \<and> italic then
        (case ff_bold_italic ff of Some p \<Rightarrow> p
         | None \<Rightarrow> (case ff_bold ff of Some p \<Rightarrow> p
           | None \<Rightarrow> (case ff_italic ff of Some p \<Rightarrow> p | None \<Rightarrow> ff_regular ff)))
      else if bold then (case ff_bold ff of Some p \<Rightarrow> p | None \<Rightarrow> ff_regular ff)
      else if italic then (case ff_italic ff of Some p \<Rightarrow> p | None \<Rightarrow> ff_regular ff)
      else ff_regular ff)"

text \<open>
  A loaded font is determined by its file and its size (the renderer's cache is keyed by
  this pair). Measuring a text in a font is the work of the font library: the renderer
  carries it as \<open>measure_text\<close>, which returns the width and the height of the text's
  bounding box.
\<close>

type_synonym font = "path \<times> int"

record text_renderer =
  font_family :: font_family
  base_font_size :: int
  heading_sizes :: "(int \<times> int) list"
  measure_text :: "pystr \<Rightarrow> font \<Rightarrow> int \<times> int"

definition TextRenderer :: "font_family \<Rightarrow> int \<Rightarrow> (pystr \<Rightarrow> font \<Rightarrow> int \<times> int) \<Rightarrow> text_renderer" where
  "TextRenderer ff base_size m =
     \<lparr>font_family = ff, base_font_size = base_size,
      heading_sizes = get_heading_sizes base_size, measure_text = m\<rparr>"

definition get_font :: "text_renderer \<Rightarrow> int \<Rightarrow> bool \<Rightarrow> bool \<Rightarrow> font" where
  "get_font r sz bold italic = (get_path (font_family r) bold italic, sz)"

definition get_font_for_style :: "text_renderer \<Rightarrow> text_style \<Rightarrow> font" where
  "get_font_for_style r style =
     (let sz = (if style_is_heading style \<and> map_of (heading_sizes r) (style_heading_level style) \<noteq> None
                  then the (map_of (heading_sizes r) (style_heading_level style))
                  else base_font_size r)
      in get_font r sz (style_bold style) (style_italic style))"

text \<open>
  \<open>str.split()\<close> with no argument: the maximal runs of characters that are not
  whitespace. The whitespace characters are those of \<open>str.isspace\<close>.
\<close>

definition is_space :: "nat \<Rightarrow> bool" where
  "is_space c \<longleftrightarrow>
     (9 \<le> c \<and> c \<le> 13) \<or> (28 \<le> c \<and> c \<le> 32) \<or> c = 133 \<or> c = 160 \<or> c = 5760 \<or>
     (8192 \<le> c \<and> c \<le> 8202) \<or> c = 8232 \<or> c = 8233 \<or> c = 8239 \<or> c = 8287 \<or> c = 12288"

fun split_scan :: "pystr \<Rightarrow> pystr \<Rightarrow> pystr list" where
  "split_scan w [] = (if w = [] then [] else [w])"
| "split_scan w (c # cs) =
     (if is_space c then (if w = [] then split_scan [] cs else w # split_scan [] cs)
      else split_scan (w @ [c]) cs)"

definition py_split :: "pystr \<Rightarrow> pystr list" where
  "py_split s = split_scan [] s"

text \<open>\<open>" ".join(words)\<close>\<close>

fun join_space :: "pystr list \<Rightarrow> pystr" where
  "join_space [] = []"
| "join_space [w] = w"
| "join_space (w # ws) = w @ 32 # join_space ws"

text \<open>
  The inner loop of \<open>wrap_text\<close> over the characters of a long word; the state is
  \<open>(lines, current_chars)\<close>.
\<close>

definition wrap_char :: "(pystr \<Rightarrow> int) \<Rightarrow> int \<Rightarrow> pystr list \<times> pystr \<Rightarrow> nat \<Rightarrow> pystr list \<times> pystr" where
  "wrap_char width max_width st char =
     (let lines = fst st; current_chars = snd st;
          test = current_chars @ [char];
          w = width test
      in if w \<le> max_width then (lines, current_chars @ [char])
         else ((if current_chars \<noteq> [] then lines @ [current_chars] else lines), [char]))"

text \<open>
  The body of the loop over the words; the state is \<open>(lines, current_line)\<close>.
\<close>

definition wrap_word :: "(pystr \<Rightarrow> int) \<Rightarrow> int \<Rightarrow> pystr list \<times> pystr list \<Rightarrow> pystr \<Rightarrow> pystr list \<times> pystr list" where
  "wrap_word width max_width st word =
     (let lines = fst st; current_line = snd st;
          test_line = join_space (current_line @ [word])
      in if width test_line \<le> max_width then (lines, current_line @ [word])
         else
           (let lines = (if current_line \<noteq> [] then lines @ [join_space current_line] else lines);
                current_line = [word];
                word_width = width word
            in if word_width > max_width then
                 (let lines = (if lines \<noteq> [] \<and> last lines = word then butlast lines else lines);
                      (lines, current_chars) = foldl (wrap_char width max_width) (lines, []) word
                  in (lines, (if current_chars \<noteq> [] then [current_chars] else [])))
               else (lines, current_line)))"

definition wrap_text :: "text_renderer \<Rightarrow> pystr \<Rightarrow> font \<Rightarrow> int \<Rightarrow> pystr list" where
  "wrap_text r text font max_width =
     (if text = [] then []
      else
        (let words = py_split text
         in if words = [] then []
            else
              (let (lines, current_line) =
                     foldl (wrap_word (\<lambda>t. fst (measure_text r t font)) max_width) ([], []) words
               in if current_line \<noteq> [] then lines @ [join_space current_line] else lines)))"

definition get_font_size_for_style :: "text_renderer \<Rightarrow> text_style \<Rightarrow> int" where
  "get_font_size_for_style r style =
     (if style_is_heading style \<and> map_of (heading_sizes r) (style_heading_level style) \<noteq> None
      then the (map_of (heading_sizes r) (style_heading_level style))
      else base_font_size r)"

definition estimate_block_height :: "text_renderer \<Rightarrow> text_block \<Rightarrow> int \<Rightarrow> int" where
  "estimate_block_height r block content_width =
     (let font = get_font_for_style r (block_style block);
          available_width = content_width - style_indent (block_style block);
          lines = wrap_text r (block_text block) font available_width;
          font_size = get_font_size_for_style r (block_style block);
          line_height = py_int (float_mul (float_of_int font_size) LINE_HEIGHT_RATIO)
      in int (length lines) * line_height + PARAGRAPH_SPACING)"

subsection \<open>The format description's wording, for comparison\<close>


text \<open>The rational number a float stands for.\<close>

fun float_value :: "pyfloat \<Rightarrow> rat" where
  "float_value (PyFloat m e) =
     (if 0 \<le> e then of_int (m * 2 ^ nat e) else of_int m / of_int (2 ^ nat (- e)))"

text \<open>
  The block height as the format description words it: the line height is the font size
  times the line height ratio 1.4, rounded to the nearest integer.
\<close>

definition described_line_height :: "int \<Rightarrow> int" where
  "described_line_height font_size = round (of_int font_size * (14 / 10) :: rat)"

definition described_block_height :: "text_renderer \<Rightarrow> text_block \<Rightarrow> int \<Rightarrow> int" where
  "described_block_height r block content_width =
     int (length (wrap_text r (block_text block) (get_font_for_style r (block_style block))
                    (content_width - style_indent (block_style block))))
       * described_line_height (get_font_size_for_style r (block_style block))
     + PARAGRAPH_SPACING"

subsection \<open>Measures of the wrapping loops\<close>




section \<open>Binary structures (the struct module)\<close>

datatype py_error = StructError | ValueError | UnicodeEncodeError

text \<open>
  The \<open>n\<close> little-endian bytes of an unsigned value, and the value of a little-endian
  byte string.
\<close>

fun le_bytes :: "nat \<Rightarrow> int \<Rightarrow> byte list" where
  "le_bytes 0 v = []"
| "le_bytes (Suc n) v = of_int (v mod 256) # le_bytes n (v div 256)"

fun le_value :: "byte list \<Rightarrow> int" where
  "le_value [] = 0"
| "le_value (b # bs) = uint b + 256 * le_value bs"

text \<open>
  \<open>struct.pack\<close> for a little-endian format of unsigned items, given as the list of
  the items' sizes and values (\<open>B\<close> is 1 byte, \<open>H\<close> 2, \<open>I\<close> 4, \<open>Q\<close> 8): a value that
  does not fit its field raises \<open>struct.error\<close>.
\<close>

fun struct_pack :: "(nat \<times> int) list \<Rightarrow> py_error + byte list" where
  "struct_pack [] = Inr []"
| "struct_pack ((n, v) # items) =
     (if 0 \<le> v \<and> v < 2 ^ (8 * n) then
        (case struct_pack items of Inl e \<Rightarrow> Inl e | Inr bs \<Rightarrow> Inr (le_bytes n v @ bs))
      else Inl StructError)"

text \<open>\<open>struct.unpack("<IHH", data)\<close>: the data must be exactly 8 bytes long.\<close>

definition unpack_IHH :: "byte list \<Rightarrow> py_error + int \<times> int \<times> int" where
  "unpack_IHH data =
     (if length data \<noteq> 8 then Inl StructError
      else Inr (le_value (take 4 data), le_value (take 2 (drop 4 data)),
                le_value (take 2 (drop 6 data))))"

text \<open>\<open>struct.pack_into(fmt, buffer, offset, ...)\<close> overwrites a slice of the buffer.\<close>

definition pack_into :: "(nat \<times> int) list \<Rightarrow> byte list \<Rightarrow> nat \<Rightarrow> py_error + byte list" where
  "pack_into items buffer offset =
     (case struct_pack items of
        Inl e \<Rightarrow> Inl e
      | Inr bs \<Rightarrow>
          if length buffer < offset + length bs then Inl StructError
          else Inr (take offset buffer @ bs @ drop (offset + length bs) buffer))"

section \<open>Page formats (xtc_format.py)\<close>

definition XTG_MARK :: int where "XTG_MARK = 0x00475458"
definition XTH_MARK :: int where "XTH_MARK = 0x00485458"
definition XTC_MARK :: int where "XTC_MARK = 0x00435458"
definition XTCH_MARK :: int where "XTCH_MARK = 0x48435458"
definition XTC_HEADER_SIZE :: nat where "XTC_HEADER_SIZE = 56"
definition PAGE_TABLE_ENTRY_SIZE :: nat where "PAGE_TABLE_ENTRY_SIZE = 16"
definition TITLE_MAX_SIZE :: nat where "TITLE_MAX_SIZE = 128"

text \<open>The 22-byte page header, format \<open><IHHBBIQ\<close>.\<close>

definition encode_xtg_header :: "int \<Rightarrow> int \<Rightarrow> int \<Rightarrow> py_error + byte list" where
  "encode_xtg_header width height data_size =
     struct_pack [(4, XTG_MARK), (2, width), (2, height), (1, 0), (1, 0), (4, data_size), (8, 0)]"

definition encode_xth_header :: "int \<Rightarrow> int \<Rightarrow> int \<Rightarrow> py_error + byte list" where
  "encode_xth_header width height data_size =
     struct_pack [(4, XTH_MARK), (2, width), (2, height), (1, 0), (1, 0), (4, data_size), (8, 0)]"

subsection \<open>numpy operations of the encoders\<close>

text \<open>
  \<open>a.reshape(..., -1, n)\<close> on the last axis: consecutive groups of \<open>n\<close> elements (the
  callers pad the axis to a multiple of \<open>n\<close> first).
\<close>

definition groups_of :: "nat \<Rightarrow> 'a list \<Rightarrow> 'a list list" where
  "groups_of n xs = map (\<lambda>j. take n (drop (j * n) xs)) [0 ..< length xs div n]"

text \<open>
  \<open>np.packbits(..., bitorder="big")\<close> on a group of 8 values: every non-zero value is a
  1 bit, and the first value is the most significant bit of the byte.
\<close>

definition packbits_big :: "byte list \<Rightarrow> byte" where
  "packbits_big bits = horner_sum of_bool 2 (rev (map (\<lambda>b. b \<noteq> 0) bits))"

text \<open>
  \<open>gray.point(lambda x: 255 if x >= 128 else 0, "1")\<close>, and the array of a mode "1"
  image as \<open>uint8\<close>: 1 for white, 0 for black.
\<close>

definition point_threshold :: "image \<Rightarrow> image" where
  "point_threshold gray =
     gray\<lparr>img_mode := Mode_1,
          img_data := map (map (\<lambda>x. if x \<ge> 128 then 255 else 0)) (img_data gray)\<rparr>"

definition mono_array :: "image \<Rightarrow> byte list list" where
  "mono_array img = map (map (\<lambda>x. if x \<noteq> 0 then 1 else 0)) (img_data img)"

text \<open>\<open>padded = np.zeros((rows, cols)); padded[:, :width] = pixels\<close>\<close>

definition pad_columns :: "nat \<Rightarrow> nat \<Rightarrow> nat \<Rightarrow> byte list list \<Rightarrow> byte list list" where
  "pad_columns rows cols width pixels =
     map (\<lambda>(z, row). row @ drop width z) (zip (replicate rows (replicate cols 0)) pixels)"

text \<open>\<open>padded = np.zeros((rows, cols)); padded[:height, :] = quantized\<close>\<close>

definition pad_rows :: "nat \<Rightarrow> nat \<Rightarrow> nat \<Rightarrow> byte list list \<Rightarrow> byte list list" where
  "pad_rows rows cols height quantized =
     quantized @ drop height (replicate rows (replicate cols 0))"

subsection \<open>The 1-bit page (encode_xtg_page)\<close>

text \<open>
  \<open>pixels.reshape(height, -1, 8)\<close> cannot infer the middle axis of an array without
  rows and raises \<open>ValueError\<close>.
\<close>

definition encode_xtg_page :: "image \<Rightarrow> py_error + byte list" where
  "encode_xtg_page img =
     (let width = fst (img_size img); height = snd (img_size img);
          mono_img = (if img_mode img \<noteq> Mode_1 then point_threshold (convert_L img) else img);
          pixels = mono_array mono_img;
          padded_width = ((width + 7) div 8) * 8;
          pixels = (if padded_width > width then pad_columns height padded_width width pixels
                    else pixels)
      in if height = 0 then Inl ValueError
         else
           (let pixels = map (groups_of 8) pixels;
                packed = map (map packbits_big) pixels;
                data = concat packed;
                data_size = ((width + 7) div 8) * height
            in case encode_xtg_header (int width) (int height) (int data_size) of
                 Inl e \<Rightarrow> Inl e
               | Inr header \<Rightarrow> Inr (header @ take data_size data)))"

subsection \<open>The 2-bit page (encode_xth_page)\<close>

text \<open>\<open>np.fliplr\<close> reverses every row.\<close>

definition fliplr :: "'a list list \<Rightarrow> 'a list list" where
  "fliplr a = map rev a"

text \<open>
  \<open>a.reshape(bytes_per_column, 8, width).transpose(2, 0, 1)\<close>: the rows are grouped by
  eights, and the result is indexed by column, then group, then row within the group.
\<close>

definition columns_by_eights :: "nat \<Rightarrow> nat \<Rightarrow> 'a list list \<Rightarrow> 'a list list list" where
  "columns_by_eights bytes_per_column width a =
     map (\<lambda>c. map (\<lambda>k. map (\<lambda>j. a ! (k * 8 + j) ! c) [0 ..< 8]) [0 ..< bytes_per_column])
       [0 ..< width]"

definition encode_xth_page :: "image \<Rightarrow> py_error + byte list" where
  "encode_xth_page img =
     (let width = fst (img_size img); height = snd (img_size img);
          quantized = quantize_to_4_levels img;
          padded_height = ((height + 7) div 8) * 8;
          quantized = (if padded_height > height then pad_rows padded_height width height quantized
                       else quantized);
          bit0 = map (map (\<lambda>q. q AND 1)) quantized;
          bit1 = map (map (\<lambda>q. drop_bit 1 q AND 1)) quantized;
          bit0 = fliplr bit0;
          bit1 = fliplr bit1;
          bytes_per_column = padded_height div 8;
          bit0 = columns_by_eights bytes_per_column width bit0;
          bit1 = columns_by_eights bytes_per_column width bit1;
          plane0 = concat (map (map packbits_big) bit0);
          plane1 = concat (map (map packbits_big) bit1);
          data = plane0 @ plane1;
          data_size = length data
      in case encode_xth_header (int width) (int height) (int data_size) of
           Inl e \<Rightarrow> Inl e
         | Inr header \<Rightarrow> Inr (header @ data))"

section \<open>The container (xtc_format.write_xtc_container, read_xtc_info)\<close>

record book_metadata =
  meta_title :: pystr
  meta_author :: pystr

record chapter_info =
  ci_title :: pystr
  ci_start_page :: int
  ci_end_page :: int

subsection \<open>UTF-8\<close>

text \<open>\<open>str.encode("utf-8")\<close>: a surrogate code point cannot be encoded.\<close>

definition utf8_char :: "nat \<Rightarrow> py_error + byte list" where
  "utf8_char c =
     (if c < 0x80 then Inr [of_nat c]
      else if c < 0x800 then Inr [of_nat (0xC0 + c div 64), of_nat (0x80 + c mod 64)]
      else if 0xD800 \<le> c \<and> c \<le> 0xDFFF then Inl UnicodeEncodeError
      else if c < 0x10000 then
        Inr [of_nat (0xE0 + c div 4096), of_nat (0x80 + c div 64 mod 64), of_nat (0x80 + c mod 64)]
      else
        Inr [of_nat (0xF0 + c div 262144), of_nat (0x80 + c div 4096 mod 64),
             of_nat (0x80 + c div 64 mod 64), of_nat (0x80 + c mod 64)])"

fun encode_utf8 :: "pystr \<Rightarrow> py_error + byte list" where
  "encode_utf8 [] = Inr []"
| "encode_utf8 (c # cs) =
     (case utf8_char c of
        Inl e \<Rightarrow> Inl e
      | Inr b \<Rightarrow> (case encode_utf8 cs of Inl e \<Rightarrow> Inl e | Inr bs \<Rightarrow> Inr (b @ bs)))"

text \<open>
  \<open>bytes.decode("utf-8", errors="ignore")\<close>: a well-formed sequence at the head is
  decoded; otherwise a byte is dropped. \<open>utf8_first\<close> gives the code point and the
  length of the well-formed sequence at the head, if there is one.
\<close>

definition is_cont :: "byte \<Rightarrow> bool" where
  "is_cont b \<longleftrightarrow> 0x80 \<le> b \<and> b \<le> 0xBF"

definition second_ok :: "byte \<Rightarrow> byte \<Rightarrow> bool" where
  "second_ok b0 b1 \<longleftrightarrow>
     (if b0 = 0xE0 then 0xA0 \<le> b1 \<and> b1 \<le> 0xBF
      else if b0 = 0xED then 0x80 \<le> b1 \<and> b1 \<le> 0x9F
      else if b0 = 0xF0 then 0x90 \<le> b1 \<and> b1 \<le> 0xBF
      else if b0 = 0xF4 then 0x80 \<le> b1 \<and> b1 \<le> 0x8F
      else is_cont b1)"

fun utf8_first :: "byte list \<Rightarrow> (nat \<times> nat) option" where
  "utf8_first [] = None"
| "utf8_first (b0 # r) =
     (if b0 < 0x80 then Some (unat b0, 1)
      else if 0xC2 \<le> b0 \<and> b0 \<le> 0xDF then
        (case r of
           b1 # _ \<Rightarrow>
             if is_cont b1 then Some ((unat b0 - 0xC0) * 64 + (unat b1 - 0x80), 2) else None
         | _ \<Rightarrow> None)
      else if 0xE0 \<le> b0 \<and> b0 \<le> 0xEF then
        (case r of
           b1 # b2 # _ \<Rightarrow>
             if second_ok b0 b1 \<and> is_cont b2
             then Some ((unat b0 - 0xE0) * 4096 + (unat b1 - 0x80) * 64 + (unat b2 - 0x80), 3)
             else None
         | _ \<Rightarrow> None)
      else if 0xF0 \<le> b0 \<and> b0 \<le> 0xF4 then
        (case r of
           b1 # b2 # b3 # _ \<Rightarrow>
             if second_ok b0 b1 \<and> is_cont b2 \<and> is_cont b3
             then Some ((unat b0 - 0xF0) * 262144 + (unat b1 - 0x80) * 4096 +
                        (unat b2 - 0x80) * 64 + (unat b3 - 0x80), 4)
             else None
         | _ \<Rightarrow> None)
      else None)"

fun decode_utf8_ignore :: "nat \<Rightarrow> byte list \<Rightarrow> pystr" where
  "decode_utf8_ignore skip [] = []"
| "decode_utf8_ignore (Suc skip) (b # bs) = decode_utf8_ignore skip bs"
| "decode_utf8_ignore 0 (b # bs) =
     (case utf8_first (b # bs) of
        Some (c, n) \<Rightarrow> c # decode_utf8_ignore (n - 1) bs
      | None \<Rightarrow> decode_utf8_ignore 0 bs)"

text \<open>\<open>bytes.ljust(width, fill)\<close>\<close>

definition ljust :: "byte list \<Rightarrow> nat \<Rightarrow> byte \<Rightarrow> byte list" where
  "ljust bs width fill = bs @ replicate (width - length bs) fill"

subsection \<open>Writing\<close>

text \<open>
  The loop that fills the page table. The state is the table and the running data
  offset; \<open>i\<close> is the index of the page.
\<close>

fun page_table_loop :: "nat \<Rightarrow> byte list list \<Rightarrow> byte list \<times> int \<Rightarrow> py_error + byte list \<times> int" where
  "page_table_loop i [] st = Inr st"
| "page_table_loop i (page_data # rest) st =
     (let page_table = fst st; current_data_offset = snd st;
          page_size = int (length page_data)
      in case unpack_IHH (take 8 page_data) of
           Inl e \<Rightarrow> Inl e
         | Inr (mark, width, height) \<Rightarrow>
             (case pack_into [(8, current_data_offset), (4, page_size), (2, width), (2, height)]
                     page_table (i * PAGE_TABLE_ENTRY_SIZE) of
                Inl e \<Rightarrow> Inl e
              | Inr page_table \<Rightarrow>
                  page_table_loop (Suc i) rest (page_table, current_data_offset + page_size)))"

text \<open>
  The result is the content of the file written, or the exception raised before the file
  is opened. The header format is \<open><IHHIIIIQQQI4x\<close>; the chapters are not used.
\<close>

definition write_xtc_container ::
  "byte list list \<Rightarrow> chapter_info list \<Rightarrow> book_metadata \<Rightarrow> bool \<Rightarrow> py_error + byte list" where
  "write_xtc_container pages chapters metadata is_grayscale =
     (let mark = (if is_grayscale then XTCH_MARK else XTC_MARK);
          page_count = length pages
      in case encode_utf8 (meta_title metadata) of
           Inl e \<Rightarrow> Inl e
         | Inr encoded \<Rightarrow>
             (let title_bytes = take (TITLE_MAX_SIZE - 1) encoded @ [0];
                  title_bytes = ljust title_bytes TITLE_MAX_SIZE 0;
                  title_offset = XTC_HEADER_SIZE;
                  page_table_offset = title_offset + TITLE_MAX_SIZE;
                  data_offset = page_table_offset + page_count * PAGE_TABLE_ENTRY_SIZE;
                  page_table = replicate (page_count * PAGE_TABLE_ENTRY_SIZE) 0
              in case page_table_loop 0 pages (page_table, int data_offset) of
                   Inl e \<Rightarrow> Inl e
                 | Inr (page_table, current_data_offset) \<Rightarrow>
                     (case struct_pack
                             [(4, mark), (2, 1), (2, int page_count), (4, 0), (4, 88), (4, 0),
                              (4, 0), (8, int page_table_offset), (8, int data_offset), (8, 0),
                              (4, int title_offset)] of
                        Inl e \<Rightarrow> Inl e
                      | Inr packed \<Rightarrow>
                          (let header = packed @ replicate 4 0
                           in Inr (header @ title_bytes @ page_table @ concat pages)))))"

subsection \<open>Reading\<close>

record xtc_info =
  info_format :: string
  info_version :: int
  info_pages :: int
  info_title :: pystr

text \<open>\<open>f"{mark:08X}"\<close> for a 32-bit value: eight upper-case hexadecimal digits.\<close>

definition hex_digit :: "int \<Rightarrow> char" where
  "hex_digit d = ''0123456789ABCDEF'' ! nat d"

definition format_08X :: "int \<Rightarrow> string" where
  "format_08X v = map (\<lambda>i. hex_digit (v div 16 ^ (7 - i) mod 16)) [0 ..< 8]"

definition read_xtc_info :: "byte list \<Rightarrow> py_error + xtc_info" where
  "read_xtc_info file =
     (let header = take XTC_HEADER_SIZE file;
          title_bytes = take TITLE_MAX_SIZE (drop XTC_HEADER_SIZE file);
          title = decode_utf8_ignore 0 (takeWhile (\<lambda>b. b \<noteq> 0) title_bytes)
      in case unpack_IHH (take 8 header) of
           Inl e \<Rightarrow> Inl e
         | Inr (mark, version, page_count) \<Rightarrow>
             (let format_name =
                    (case map_of [(XTC_MARK, ''XTC''), (XTCH_MARK, ''XTCH'')] mark of
                       Some name \<Rightarrow> name
                     | None \<Rightarrow> ''Unknown (0x'' @ format_08X mark @ '')'')
              in Inr \<lparr>info_format = format_name, info_version = version,
                      info_pages = page_count, info_title = title\<rparr>))"

text \<open>The fields of a container and of a page, read back from the bytes.\<close>

definition field_at :: "nat \<Rightarrow> nat \<Rightarrow> byte list \<Rightarrow> int" where
  "field_at n offset bs = le_value (take n (drop offset bs))"

definition entry_offset :: "byte list \<Rightarrow> nat \<Rightarrow> int" where
  "entry_offset file i = field_at 8 (184 + 16 * i) file"

definition entry_size :: "byte list \<Rightarrow> nat \<Rightarrow> int" where
  "entry_size file i = field_at 4 (184 + 16 * i + 8) file"

definition entry_width :: "byte list \<Rightarrow> nat \<Rightarrow> int" where
  "entry_width file i = field_at 2 (184 + 16 * i + 12) file"

definition entry_height :: "byte list \<Rightarrow> nat \<Rightarrow> int" where
  "entry_height file i = field_at 2 (184 + 16 * i + 14) file"

text \<open>
  The page table the loop is to produce: for every page, in order, the 16 bytes of its
  entry (offset, size, and the width and height read from the page's own header), each
  page starting where the previous one ends.
\<close>

definition entry_bytes :: "int \<Rightarrow> byte list \<Rightarrow> byte list" where
  "entry_bytes off page_data =
     le_bytes 8 off @ le_bytes 4 (int (length page_data)) @
     le_bytes 2 (field_at 2 4 page_data) @ le_bytes 2 (field_at 2 6 page_data)"

fun table_entries :: "int \<Rightarrow> byte list list \<Rightarrow> byte list" where
  "table_entries off [] = []"
| "table_entries off (p # ps) = entry_bytes off p @ table_entries (off + int (length p)) ps"

text \<open>The offset of the i-th page when the first one starts at \<open>base\<close>.\<close>

definition blob_offset :: "int \<Rightarrow> byte list list \<Rightarrow> nat \<Rightarrow> int" where
  "blob_offset base blobs i = base + int (length (concat (take i blobs)))"

text \<open>What the loop checks of every page: it holds a header, and its entry can be packed.\<close>

fun entries_fit :: "int \<Rightarrow> byte list list \<Rightarrow> bool" where
  "entries_fit off [] = True"
| "entries_fit off (p # ps) =
     (8 \<le> length p \<and> 0 \<le> off \<and> off < 2 ^ 64 \<and> int (length p) < 2 ^ 32 \<and>
      entries_fit (off + int (length p)) ps)"

section \<open>Pagination (pagination.py)\<close>

text \<open>
  The fields of the result classes carry a prefix where their names would collide with one
  another or with a local variable of \<open>paginate\<close>: \<open>page_blocks\<close> is
  \<open>PageContent.blocks\<close>, \<open>chapter_name\<close> is \<open>ChapterMapping.title\<close>, and
  \<open>result_pages\<close> and \<open>result_chapters\<close> are \<open>PaginationResult.pages\<close> and
  \<open>.chapters\<close>; the local variable \<open>page_number\<close> is the field \<open>page_no\<close> of the
  loop state.
\<close>

record page_content =
  page_blocks :: "text_block list"
  page_number :: int
  is_chapter_start :: bool
  chapter_title :: "pystr option"

record chapter_mapping =
  chapter_name :: pystr
  start_page :: int
  end_page :: int

record pagination_result =
  result_pages :: "page_content list"
  result_chapters :: "chapter_mapping list"
  total_pages :: int

record paginator =
  renderer :: text_renderer
  content_height :: int
  content_width :: int

definition Paginator :: "text_renderer \<Rightarrow> paginator" where
  "Paginator r =
     \<lparr>renderer = r,
      content_height = DISPLAY_HEIGHT - MARGIN_TOP - MARGIN_BOTTOM,
      content_width = DISPLAY_WIDTH - MARGIN_LEFT - MARGIN_RIGHT\<rparr>"

definition is_chapter_heading :: "text_block \<Rightarrow> bool" where
  "is_chapter_heading block \<longleftrightarrow>
     block_type block \<in> {''heading1'', ''heading2''} \<or>
     (style_is_heading (block_style block) \<and> style_heading_level (block_style block) \<le> 2)"

definition paginator_estimate_block_height :: "paginator \<Rightarrow> text_block \<Rightarrow> int" where
  "paginator_estimate_block_height p block =
     estimate_block_height (renderer p) block (content_width p)"

text \<open>The local variables of \<open>paginate\<close>.\<close>

record paginate_state =
  pages :: "page_content list"
  chapter_mappings :: "chapter_mapping list"
  current_page_blocks :: "text_block list"
  current_y :: int
  page_no :: int
  current_chapter :: "pystr option"
  current_chapter_start :: int

text \<open>A \<open>str | None\<close> used as a condition: \<open>None\<close> and the empty string are false.\<close>

definition truthy :: "pystr option \<Rightarrow> bool" where
  "truthy s \<longleftrightarrow> (case s of None \<Rightarrow> False | Some t \<Rightarrow> t \<noteq> [])"

text \<open>
  Emitting the current page: it is appended to \<open>pages\<close>, the page number advances and
  the page under construction is reset.
\<close>

definition make_page :: "paginate_state \<Rightarrow> page_content" where
  "make_page s =
     \<lparr>page_blocks = current_page_blocks s,
      page_number = page_no s,
      is_chapter_start = (page_no s = current_chapter_start s),
      chapter_title = (if page_no s = current_chapter_start s then current_chapter s else None)\<rparr>"

definition emit_page :: "paginate_state \<Rightarrow> paginate_state" where
  "emit_page s =
     s\<lparr>pages := pages s @ [make_page s],
       page_no := page_no s + 1,
       current_page_blocks := [],
       current_y := 0\<rparr>"

text \<open>The chapter break at a chapter-level heading.\<close>

definition chapter_break :: "paginate_state \<Rightarrow> text_block \<Rightarrow> paginate_state" where
  "chapter_break s0 block =
     (let s = (if truthy (current_chapter s0) \<and> current_chapter_start s0 < page_no s0
               then s0\<lparr>chapter_mappings := chapter_mappings s0 @
                        [\<lparr>chapter_name = the (current_chapter s0),
                          start_page = current_chapter_start s0,
                          end_page = page_no s0 - 1\<rparr>]\<rparr>
               else s0);
          s = (if current_page_blocks s \<noteq> [] then emit_page s else s)
      in s\<lparr>current_chapter := Some (block_text block),
           current_chapter_start := page_no s\<rparr>)"

text \<open>The body of the loop over the blocks.\<close>

definition paginate_block :: "paginator \<Rightarrow> paginate_state \<Rightarrow> text_block \<Rightarrow> paginate_state" where
  "paginate_block p s0 block =
     (let block_height = paginator_estimate_block_height p block;
          s = (if is_chapter_heading block then chapter_break s0 block else s0);
          s = (if current_y s + block_height > content_height p
               then (if current_page_blocks s \<noteq> [] then emit_page s else s)
               else s)
      in s\<lparr>current_page_blocks := current_page_blocks s @ [block],
           current_y := current_y s + block_height\<rparr>)"

definition paginate_init :: paginate_state where
  "paginate_init =
     \<lparr>pages = [], chapter_mappings = [], current_page_blocks = [], current_y = 0,
      page_no = 1, current_chapter = None, current_chapter_start = 1\<rparr>"

text \<open>
  After the loop: the final page is emitted without advancing the page number, and the
  open chapter is closed at the current page number.
\<close>

definition paginate_finish :: "paginate_state \<Rightarrow> pagination_result" where
  "paginate_finish s0 =
     (let s = (if current_page_blocks s0 \<noteq> []
               then s0\<lparr>pages := pages s0 @ [make_page s0]\<rparr> else s0);
          s = (if truthy (current_chapter s)
               then s\<lparr>chapter_mappings := chapter_mappings s @
                        [\<lparr>chapter_name = the (current_chapter s),
                          start_page = current_chapter_start s,
                          end_page = page_no s\<rparr>]\<rparr>
               else s)
      in \<lparr>result_pages = pages s,
          result_chapters = chapter_mappings s,
          total_pages = int (length (pages s))\<rparr>)"

definition paginate :: "paginator \<Rightarrow> text_block list \<Rightarrow> pagination_result" where
  "paginate p content_blocks =
     paginate_finish (foldl (paginate_block p) paginate_init content_blocks)"


subsection \<open>Invariants of the pagination loop\<close>

text \<open>The blocks laid out so far: those of the emitted pages, then those of the page under construction.\<close>

definition laid_out :: "paginate_state \<Rightarrow> text_block list" where
  "laid_out s = concat (map page_blocks (pages s)) @ current_page_blocks s"

definition block_heights :: "paginator \<Rightarrow> text_block list \<Rightarrow> int" where
  "block_heights p bs = sum_list (map (paginator_estimate_block_height p) bs)"

text \<open>A page fits: its blocks fit the content height, or it is one block that is taller than the page.\<close>

definition page_fits :: "paginator \<Rightarrow> text_block list \<Rightarrow> bool" where
  "page_fits p bs \<longleftrightarrow>
     block_heights p bs \<le> content_height p \<or>
     (case bs of [b] \<Rightarrow> content_height p < paginator_estimate_block_height p b | _ \<Rightarrow> False)"

definition pages_inv :: "paginator \<Rightarrow> paginate_state \<Rightarrow> bool" where
  "pages_inv p s \<longleftrightarrow>
     list_all (\<lambda>pg. page_fits p (page_blocks pg)) (pages s) \<and>
     (current_page_blocks s = [] \<or> page_fits p (current_page_blocks s)) \<and>
     current_y s = block_heights p (current_page_blocks s) \<and>
     page_no s = int (length (pages s)) + 1 \<and>
     map page_number (pages s) = map (\<lambda>i. int i + 1) [0 ..< length (pages s)]"


section \<open>Example inputs\<close>

text \<open>
  A renderer at the default font size whose font has every character 10 pixels wide, and
  blocks as the content parser emits them for \<open>p\<close> and \<open>h1\<close> elements.
\<close>

definition example_fonts :: font_family where
  "example_fonts =
     \<lparr>ff_regular = ''regular.ttf'', ff_bold = None, ff_italic = None, ff_bold_italic = None\<rparr>"

definition fixed_pitch :: "pystr \<Rightarrow> font \<Rightarrow> int \<times> int" where
  "fixed_pitch t f = (10 * int (length t), 10)"

definition example_renderer :: text_renderer where
  "example_renderer = TextRenderer example_fonts DEFAULT_FONT_SIZE fixed_pitch"

definition paragraph_block :: "string \<Rightarrow> text_block" where
  "paragraph_block t =
     \<lparr>block_text = pystr t,
      block_style = \<lparr>style_font_size = 20, style_bold = False, style_italic = False,
                     style_is_heading = False, style_heading_level = 0, style_indent = 0\<rparr>,
      block_type = ''paragraph''\<rparr>"

definition heading1_block :: "string \<Rightarrow> text_block" where
  "heading1_block t =
     \<lparr>block_text = pystr t,
      block_style = \<lparr>style_font_size = 32, style_bold = True, style_italic = False,
                     style_is_heading = True, style_heading_level = 1, style_indent = 0\<rparr>,
      block_type = ''heading1''\<rparr>"

text \<open>An 8 x 8 buffer of black samples, and the 1-bit page of one row of 8 white pixels.\<close>

definition black_8x8 :: image where
  "black_8x8 = \<lparr>img_mode = Mode_L, img_size = (8, 8), img_data = replicate 8 (replicate 8 0)\<rparr>"

definition white_row_page :: "byte list" where
  "white_row_page =
     [0x58, 0x54, 0x47, 0, 8, 0, 1, 0, 0, 0, 1, 0, 0, 0, 0, 0, 0, 0, 0, 0, 0, 0, 0xFF]"

definition example_metadata :: book_metadata where
  "example_metadata = \<lparr>meta_title = pystr ''Hi'', meta_author = pystr ''''\<rparr>"

text \<open>A buffer of 10 x 2 samples: its rows are padded to 16 pixels.\<close>

definition example_buffer :: image where
  "example_buffer =
     \<lparr>img_mode = Mode_L, img_size = (10, 2),
      img_data = [[255, 0, 128, 127, 200, 0, 0, 0, 255, 255],
                  [0, 0, 0, 0, 0, 0, 0, 255, 0, 129]]\<rparr>"

section \<open>Evaluation of the examples\<close>

lemma Paginator_simps [simp]:
  "renderer (Paginator r) = r"
  "content_height (Paginator r) = 740"
  "content_width (Paginator r) = 448"
  by (simp_all add: Paginator_def DISPLAY_HEIGHT_def DISPLAY_WIDTH_def MARGIN_TOP_def
      MARGIN_BOTTOM_def MARGIN_LEFT_def MARGIN_RIGHT_def)

lemma example_heading_sizes:
  "get_heading_sizes 34 = [(1, 61), (2, 51), (3, 44), (4, 39), (5, 34), (6, 30)]"
  by code_simp

lemma example_renderer_simps [simp]:
  "measure_text example_renderer t f = (10 * int (length t), 10)"
  "base_font_size example_renderer = 34"
  "heading_sizes example_renderer = [(1, 61), (2, 51), (3, 44), (4, 39), (5, 34), (6, 30)]"
  by (simp_all add: example_renderer_def TextRenderer_def fixed_pitch_def DEFAULT_FONT_SIZE_def
      example_heading_sizes)

lemma line_height_34: "py_int (float_mul (float_of_int 34) LINE_HEIGHT_RATIO) = 47"
  by code_simp

lemma line_height_61: "py_int (float_mul (float_of_int 61) LINE_HEIGHT_RATIO) = 85"
  by code_simp

lemma example_wrap_a: "wrap_text example_renderer (pystr ''a'') f 448 = [pystr ''a'']"
  by (simp add: wrap_text_def py_split_def pystr_def is_space_def wrap_word_def)

lemma example_wrap_Ch: "wrap_text example_renderer (pystr ''Ch'') f 448 = [pystr ''Ch'']"
  by (simp add: wrap_text_def py_split_def pystr_def is_space_def wrap_word_def)

lemma example_heights [simp]:
  "paginator_estimate_block_height (Paginator example_renderer) (paragraph_block ''a'') = 63"
  "paginator_estimate_block_height (Paginator example_renderer) (heading1_block ''Ch'') = 101"
  by (simp_all add: paginator_estimate_block_height_def estimate_block_height_def Let_def
      paragraph_block_def heading1_block_def get_font_size_for_style_def
      example_wrap_a example_wrap_Ch line_height_34 line_height_61 PARAGRAPH_SPACING_def)

lemma example_headings [simp]:
  "\<not> is_chapter_heading (paragraph_block t)"
  "is_chapter_heading (heading1_block t)"
  "block_text (heading1_block t) = pystr t"
  by (simp_all add: is_chapter_heading_def paragraph_block_def heading1_block_def)

lemmas paginate_eval =
  paginate_def paginate_block_def chapter_break_def emit_page_def make_page_def
  paginate_finish_def paginate_init_def truthy_def Let_def


lemma example_dropped_chapter:
  "result_chapters (paginate (Paginator example_renderer)
      [heading1_block ''Ch'', paragraph_block ''a'', heading1_block ''Ch'', paragraph_block ''a''])
     = [\<lparr>chapter_name = pystr ''Ch'', start_page = 2, end_page = 2\<rparr>]"
  "total_pages (paginate (Paginator example_renderer)
      [heading1_block ''Ch'', paragraph_block ''a'', heading1_block ''Ch'', paragraph_block ''a'']) = 2"
  by (simp_all add: paginate_eval pystr_def)

section \<open>Properties of the quantisation\<close>

lemma np_assign_nth:
  assumes "y < length out" "length msk = length out"
    and "x < length (out ! y)" "length (msk ! y) = length (out ! y)"
  shows "np_assign out msk v ! y ! x = (if msk ! y ! x then v else out ! y ! x)"
  using assms by (simp add: np_assign_def)

lemma np_assign_length [simp]:
  "length msk = length out \<Longrightarrow> length (np_assign out msk v) = length out"
  by (simp add: np_assign_def)

lemma np_assign_row_length [simp]:
  "y < length out \<Longrightarrow> length msk = length out \<Longrightarrow> length (msk ! y) = length (out ! y) \<Longrightarrow>
   length (np_assign out msk v ! y) = length (out ! y)"
  by (simp add: np_assign_def)

lemma np_mask_length [simp]: "length (np_mask p pixels) = length pixels"
  by (simp add: np_mask_def)

lemma np_mask_nth [simp]:
  "y < length pixels \<Longrightarrow> np_mask p pixels ! y = map p (pixels ! y)"
  by (simp add: np_mask_def)

lemma np_and_length [simp]:
  "length b = length a \<Longrightarrow> length (np_and a b) = length a"
  by (simp add: np_and_def)

lemma np_and_row [simp]:
  "y < length a \<Longrightarrow> length b = length a \<Longrightarrow>
   np_and a b ! y = map (\<lambda>(x, y). x \<and> y) (zip (a ! y) (b ! y))"
  by (simp add: np_and_def)

lemma np_zeros_like_length [simp]: "length (np_zeros_like pixels) = length pixels"
  by (simp add: np_zeros_like_def)

lemma np_zeros_like_nth [simp]:
  "y < length pixels \<Longrightarrow> np_zeros_like pixels ! y = map (\<lambda>_. 0) (pixels ! y)"
  by (simp add: np_zeros_like_def)

lemma quantize_nth:
  assumes "y < length (img_data img)" "x < length (img_data img ! y)"
  shows "quantize_to_4_levels img ! y ! x = level_of (img_data img ! y ! x)"
proof -
  let ?px = "img_data img"
  have px: "img_data (if img_mode img \<noteq> Mode_L then convert_L img else img) = ?px"
    by (simp add: convert_L_def)
  show ?thesis
    unfolding quantize_to_4_levels_def Let_def px
    using assms
    by (auto simp: np_assign_nth level_of_def word_le_nat_alt word_less_nat_alt)
qed

lemma quantize_length: "length (quantize_to_4_levels img) = length (img_data img)"
  by (simp add: quantize_to_4_levels_def Let_def convert_L_def)

lemma quantize_row_length:
  "y < length (img_data img) \<Longrightarrow>
   length (quantize_to_4_levels img ! y) = length (img_data img ! y)"
  by (simp add: quantize_to_4_levels_def Let_def convert_L_def)

lemma quantize_sample_level: "quantize_sample s = level_of s"
  by (simp add: quantize_sample_def quantize_nth pixel_image_def)

lemma level_of_antimono: "s \<le> t \<Longrightarrow> level_of t \<le> level_of s"
  by (auto simp: level_of_def word_le_nat_alt)

text \<open>
  C7. Every cell of the quantised array depends on its own sample only (it is the level
  \<open>quantize_sample\<close> of that sample); a sample up to 42 has level 3, one from 43 to 127
  level 2, one from 128 to 212 level 1 and one above 212 level 0; the golden values
  0, 42 -> 3; 43, 127 -> 2; 128, 212 -> 1; 213, 255 -> 0 hold; and the level never
  increases when the sample increases.
\<close>

theorem quantize_to_4_levels_step:
  "(\<forall>y < length (img_data img). \<forall>x < length (img_data img ! y).
       quantize_to_4_levels img ! y ! x = quantize_sample (img_data img ! y ! x)) \<and>
   (s \<le> 42 \<longrightarrow> quantize_sample s = 3) \<and>
   (43 \<le> s \<and> s \<le> 127 \<longrightarrow> quantize_sample s = 2) \<and>
   (128 \<le> s \<and> s \<le> 212 \<longrightarrow> quantize_sample s = 1) \<and>
   (s > 212 \<longrightarrow> quantize_sample s = 0) \<and>
   quantize_sample 0 = 3 \<and> quantize_sample 42 = 3 \<and>
   quantize_sample 43 = 2 \<and> quantize_sample 127 = 2 \<and>
   quantize_sample 128 = 1 \<and> quantize_sample 212 = 1 \<and>
   quantize_sample 213 = 0 \<and> quantize_sample 255 = 0 \<and>
   (\<forall>t. s \<le> t \<longrightarrow> quantize_sample t \<le> quantize_sample s)"
proof -
  have cells: "\<forall>y < length (img_data img). \<forall>x < length (img_data img ! y).
       quantize_to_4_levels img ! y ! x = quantize_sample (img_data img ! y ! x)"
    by (simp add: quantize_nth quantize_sample_level)
  have r3: "s \<le> 42 \<longrightarrow> quantize_sample s = 3"
    by (simp add: quantize_sample_level level_of_def)
  have r2: "43 \<le> s \<and> s \<le> 127 \<longrightarrow> quantize_sample s = 2"
    by (auto simp: quantize_sample_level level_of_def word_le_nat_alt word_less_nat_alt)
  have r1: "128 \<le> s \<and> s \<le> 212 \<longrightarrow> quantize_sample s = 1"
    by (auto simp: quantize_sample_level level_of_def word_le_nat_alt word_less_nat_alt)
  have r0: "s > 212 \<longrightarrow> quantize_sample s = 0"
    by (auto simp: quantize_sample_level level_of_def word_le_nat_alt word_less_nat_alt)
  have golden: "quantize_sample 0 = 3 \<and> quantize_sample 42 = 3 \<and>
     quantize_sample 43 = 2 \<and> quantize_sample 127 = 2 \<and>
     quantize_sample 128 = 1 \<and> quantize_sample 212 = 1 \<and>
     quantize_sample 213 = 0 \<and> quantize_sample 255 = 0"
    by (simp add: quantize_sample_level level_of_def)
  have mono: "\<forall>t. s \<le> t \<longrightarrow> quantize_sample t \<le> quantize_sample s"
    by (simp add: quantize_sample_level level_of_antimono)
  from cells r3 r2 r1 r0 golden mono show ?thesis by blast
qed

theorem quantize_to_4_levels_step_witness:
  "quantize_to_4_levels \<lparr>img_mode = Mode_L, img_size = (2, 1), img_data = [[0, 200]]\<rparr> ! 0 ! 1
     = quantize_sample 200 \<and>
   (43::byte) \<le> 100 \<and> (100::byte) \<le> 127 \<and> quantize_sample 100 = 2 \<and>
   (100::byte) \<le> 200 \<and> quantize_sample 200 \<le> quantize_sample 100"
proof -
  let ?img = "\<lparr>img_mode = Mode_L, img_size = (2, 1), img_data = [[0, 200 :: byte]]\<rparr>"
  note step = quantize_to_4_levels_step [of ?img 100]
  have cell: "quantize_to_4_levels ?img ! 0 ! 1 = quantize_sample 200"
    using step by simp
  have range: "(43::byte) \<le> 100 \<and> (100::byte) \<le> 127" by simp
  then have lvl: "quantize_sample 100 = 2" using step by blast
  have le: "(100::byte) \<le> 200" by simp
  then have "quantize_sample 200 \<le> quantize_sample 100" using step by blast
  with cell range lvl le show ?thesis by blast
qed

section \<open>Properties of the line wrapper\<close>

subsection \<open>Splitting into words\<close>





subsection \<open>The character loop\<close>






subsection \<open>The word loop\<close>















section \<open>The estimated block height\<close>

lemma py_int_truncates:
  "py_int x = (if 0 \<le> float_value x then \<lfloor>float_value x\<rfloor> else \<lceil>float_value x\<rceil>)"
proof (cases x)
  case (PyFloat m e)
  show ?thesis
  proof (cases "0 \<le> e")
    case True
    define k where "k = m * 2 ^ nat e"
    have "float_value x = of_int k" "py_int x = k"
      using True by (simp_all add: PyFloat k_def)
    then show ?thesis
      by (simp only: floor_of_int ceiling_of_int if_cancel)
  next
    case False
    define d :: int where "d = 2 ^ nat (- e)"
    have d: "0 < d" by (simp add: d_def)
    have v: "float_value x = of_int m / of_int d"
      using False by (simp add: PyFloat d_def)
    show ?thesis
    proof (cases "0 \<le> m")
      case True
      then have "0 \<le> float_value x"
        using d by (simp add: v)
      moreover have "sgn m * (\<bar>m\<bar> div d) = m div d"
        using True by (cases "m = 0") simp_all
      ultimately show ?thesis
        using False by (simp add: PyFloat d_def [symmetric] floor_divide_of_int_eq v)
    next
      case neg: False
      then have "float_value x < 0"
        using d by (simp add: v divide_neg_pos)
      moreover have "\<lceil>of_int m / of_int d :: rat\<rceil> = - \<lfloor>of_int (- m) / of_int d :: rat\<rfloor>"
        by (simp add: ceiling_def)
      moreover have "sgn m * (\<bar>m\<bar> div d) = - ((- m) div d)"
        using neg by simp
      ultimately show ?thesis
        using False by (simp add: PyFloat d_def [symmetric] floor_divide_of_int_eq v del: of_int_minus)
    qed
  qed
qed

lemma described_34: "described_line_height 34 = 48"
  by (simp add: described_line_height_def round_def floor_eq_iff)

text \<open>
  C3 (as amended). The estimated height of a block is the number of its wrapped lines (at
  the content width less the block's indent) times the line height, plus the paragraph
  spacing 16. The line height is \<open>int(font_size * 1.4)\<close>: the float product truncated
  towards zero, not rounded to the nearest integer. The font size is the entry of the
  heading size table when the style is a heading and its level is in the table, and the
  base font size otherwise.
\<close>

theorem estimate_block_height_truncates:
  "estimate_block_height r block avail =
     int (length (wrap_text r (block_text block) (get_font_for_style r (block_style block))
                    (avail - style_indent (block_style block))))
       * py_int (float_mul (float_of_int (get_font_size_for_style r (block_style block)))
                   LINE_HEIGHT_RATIO)
     + 16 \<and>
   py_int (float_mul (float_of_int (get_font_size_for_style r (block_style block))) LINE_HEIGHT_RATIO)
     = (let v = float_value (float_mul (float_of_int (get_font_size_for_style r (block_style block)))
                               LINE_HEIGHT_RATIO)
        in if 0 \<le> v then \<lfloor>v\<rfloor> else \<lceil>v\<rceil>) \<and>
   get_font_size_for_style r (block_style block) =
     (case map_of (heading_sizes r) (style_heading_level (block_style block)) of
        Some sz \<Rightarrow> if style_is_heading (block_style block) then sz else base_font_size r
      | None \<Rightarrow> base_font_size r)"
  by (simp add: estimate_block_height_def Let_def PARAGRAPH_SPACING_def py_int_truncates
      get_font_size_for_style_def split: option.splits)

theorem estimate_block_height_truncates_witness:
  "estimate_block_height example_renderer (heading1_block ''Ch'') 448 = 1 * 85 + 16 \<and>
   get_font_size_for_style example_renderer (block_style (heading1_block ''Ch'')) = 61"
proof -
  have size: "get_font_size_for_style example_renderer (block_style (heading1_block ''Ch'')) = 61"
    using estimate_block_height_truncates [of example_renderer "heading1_block ''Ch''" 448]
    by (simp add: heading1_block_def)
  have "wrap_text example_renderer (block_text (heading1_block ''Ch''))
          (get_font_for_style example_renderer (block_style (heading1_block ''Ch'')))
          (448 - style_indent (block_style (heading1_block ''Ch''))) = [pystr ''Ch'']"
    by (simp add: example_wrap_Ch heading1_block_def)
  with size show ?thesis
    using estimate_block_height_truncates [of example_renderer "heading1_block ''Ch''" 448]
    by (simp add: line_height_61)
qed

text \<open>
  At the default font size 34 the line height is 47, where rounding to the nearest integer
  gives 48: a one-line paragraph is 63 pixels high, not 64.
\<close>

theorem estimate_block_height_counterexample:
  "estimate_block_height example_renderer (paragraph_block ''a'') 448 = 63 \<and>
   described_block_height example_renderer (paragraph_block ''a'') 448 = 64"
proof -
  have "estimate_block_height example_renderer (paragraph_block ''a'') 448 = 63"
    using example_heights(1) by (simp add: paginator_estimate_block_height_def)
  moreover have "described_block_height example_renderer (paragraph_block ''a'') 448 = 64"
    by (simp add: described_block_height_def paragraph_block_def get_font_size_for_style_def
        example_wrap_a described_34 PARAGRAPH_SPACING_def)
  ultimately show ?thesis by simp
qed

section \<open>Properties of the pagination\<close>

lemma emit_page_simps [simp]:
  "pages (emit_page s) = pages s @ [make_page s]"
  "page_no (emit_page s) = page_no s + 1"
  "current_page_blocks (emit_page s) = []"
  "current_y (emit_page s) = 0"
  "chapter_mappings (emit_page s) = chapter_mappings s"
  "current_chapter (emit_page s) = current_chapter s"
  "current_chapter_start (emit_page s) = current_chapter_start s"
  by (simp_all add: emit_page_def)

lemma make_page_simps [simp]:
  "page_blocks (make_page s) = current_page_blocks s"
  "page_number (make_page s) = page_no s"
  by (simp_all add: make_page_def)

subsection \<open>No block is lost\<close>

lemma laid_out_emit_page [simp]: "laid_out (emit_page s) = laid_out s"
  by (simp add: laid_out_def)

lemma laid_out_chapter_break [simp]: "laid_out (chapter_break s b) = laid_out s"
  by (simp add: chapter_break_def Let_def laid_out_def)

lemma laid_out_paginate_block [simp]: "laid_out (paginate_block p s b) = laid_out s @ [b]"
proof -
  have "laid_out (t\<lparr>current_page_blocks := current_page_blocks t @ [b], current_y := y\<rparr>)
          = laid_out t @ [b]" for t y
    by (simp add: laid_out_def)
  then show ?thesis
    by (simp add: paginate_block_def Let_def)
qed

lemma laid_out_foldl: "laid_out (foldl (paginate_block p) s bs) = laid_out s @ bs"
  by (induction bs arbitrary: s) simp_all

lemma paginate_finish_blocks:
  "concat (map page_blocks (result_pages (paginate_finish s))) = laid_out s"
  by (simp add: paginate_finish_def Let_def laid_out_def)

text \<open>
  C2. The blocks of the pages returned by \<open>paginate\<close>, concatenated in page order, are
  the input sequence: nothing is dropped, reordered or duplicated.
\<close>

theorem paginate_preserves_blocks:
  "concat (map page_blocks (result_pages (paginate p content_blocks))) = content_blocks"
proof -
  have "laid_out paginate_init = []"
    by (simp add: laid_out_def paginate_init_def)
  then show ?thesis
    by (simp add: paginate_def paginate_finish_blocks laid_out_foldl)
qed

subsection \<open>Pages fit, and are numbered from 1\<close>

lemma block_heights_simps [simp]:
  "block_heights p [] = 0"
  "block_heights p (bs @ [b]) = block_heights p bs + paginator_estimate_block_height p b"
  by (simp_all add: block_heights_def)

lemma pages_inv_init: "pages_inv p paginate_init"
  by (simp add: pages_inv_def paginate_init_def)

lemma pages_inv_emit_page:
  "pages_inv p s \<Longrightarrow> current_page_blocks s \<noteq> [] \<Longrightarrow> pages_inv p (emit_page s)"
  by (simp add: pages_inv_def)

lemma pages_inv_flush:
  "pages_inv p s \<Longrightarrow> pages_inv p (if current_page_blocks s \<noteq> [] then emit_page s else s)"
  by (simp add: pages_inv_emit_page)

lemma pages_inv_chapter_fields:
  "pages_inv p (s\<lparr>chapter_mappings := cm\<rparr>) = pages_inv p s"
  "pages_inv p (s\<lparr>current_chapter := cc, current_chapter_start := cs\<rparr>) = pages_inv p s"
  by (simp_all add: pages_inv_def)

lemma pages_inv_chapter_break: "pages_inv p s \<Longrightarrow> pages_inv p (chapter_break s b)"
  unfolding chapter_break_def Let_def
  by (simp add: pages_inv_chapter_fields pages_inv_flush del: emit_page_simps)

lemma page_fits_single: "page_fits p [b]"
  by (auto simp: page_fits_def block_heights_def)

lemma pages_inv_append:
  assumes "pages_inv p t"
    and "current_y t + paginator_estimate_block_height p b \<le> content_height p \<or>
         current_page_blocks t = []"
  shows "pages_inv p (t\<lparr>current_page_blocks := current_page_blocks t @ [b],
                         current_y := current_y t + paginator_estimate_block_height p b\<rparr>)"
  using assms
  by (auto simp: pages_inv_def page_fits_single) (simp_all add: page_fits_def)

lemma pages_inv_paginate_block:
  assumes "pages_inv p s"
  shows "pages_inv p (paginate_block p s b)"
proof -
  let ?h = "paginator_estimate_block_height p b"
  define s1 where "s1 = (if is_chapter_heading b then chapter_break s b else s)"
  define s2 where "s2 = (if current_y s1 + ?h > content_height p
               then (if current_page_blocks s1 \<noteq> [] then emit_page s1 else s1)
               else s1)"
  have inv1: "pages_inv p s1"
    using assms by (simp add: s1_def pages_inv_chapter_break)
  have inv2: "pages_inv p s2"
    using inv1 by (simp add: s2_def pages_inv_emit_page)
  have room: "current_y s2 + ?h \<le> content_height p \<or> current_page_blocks s2 = []"
    by (simp add: s2_def)
  have "paginate_block p s b =
      s2\<lparr>current_page_blocks := current_page_blocks s2 @ [b], current_y := current_y s2 + ?h\<rparr>"
    by (simp add: paginate_block_def Let_def s1_def s2_def)
  with pages_inv_append [OF inv2 room] show ?thesis by simp
qed

lemma pages_inv_foldl:
  "pages_inv p s \<Longrightarrow> pages_inv p (foldl (paginate_block p) s bs)"
  by (induction bs arbitrary: s) (simp_all add: pages_inv_paginate_block)

lemma paginate_finish_pages:
  "result_pages (paginate_finish s) =
     (if current_page_blocks s \<noteq> [] then pages s @ [make_page s] else pages s)"
  by (simp add: paginate_finish_def Let_def)

lemma pages_inv_result:
  assumes "pages_inv p s" "i < length (result_pages (paginate_finish s))"
  shows "page_number (result_pages (paginate_finish s) ! i) = int i + 1 \<and>
         page_fits p (page_blocks (result_pages (paginate_finish s) ! i))"
proof (cases "i < length (pages s)")
  case True
  have "map page_number (pages s) ! i = map (\<lambda>i. int i + 1) [0 ..< length (pages s)] ! i"
    using assms(1) by (simp add: pages_inv_def)
  then have "page_number (pages s ! i) = int i + 1"
    using True by simp
  moreover have "page_fits p (page_blocks (pages s ! i))"
    using assms(1) True by (simp add: pages_inv_def list_all_length)
  ultimately show ?thesis
    using True by (simp add: paginate_finish_pages nth_append)
next
  case False
  with assms(2) have last: "current_page_blocks s \<noteq> []" "i = length (pages s)"
    by (auto simp: paginate_finish_pages split: if_splits)
  then show ?thesis
    using assms(1) by (simp add: paginate_finish_pages pages_inv_def)
qed

text \<open>
  C8. The i-th page returned by \<open>paginate\<close> has page number i (counting from 1); the
  estimated heights of its blocks add up to at most the content height, unless the page
  is a single block that alone is taller than the content height; and the pages hold the
  input blocks whole and in order, so that no block is split between two pages.
\<close>

theorem paginate_pages_fit:
  "(\<forall>i < length (result_pages (paginate p content_blocks)).
      page_number (result_pages (paginate p content_blocks) ! i) = int i + 1 \<and>
      (block_heights p (page_blocks (result_pages (paginate p content_blocks) ! i))
         \<le> content_height p \<or>
       (\<exists>b. page_blocks (result_pages (paginate p content_blocks) ! i) = [b] \<and>
            content_height p < paginator_estimate_block_height p b))) \<and>
   concat (map page_blocks (result_pages (paginate p content_blocks))) = content_blocks"
proof -
  have inv: "pages_inv p (foldl (paginate_block p) paginate_init content_blocks)"
    by (simp add: pages_inv_foldl pages_inv_init)
  have fits: "page_fits p bs \<Longrightarrow>
      block_heights p bs \<le> content_height p \<or>
      (\<exists>b. bs = [b] \<and> content_height p < paginator_estimate_block_height p b)" for bs
    by (auto simp: page_fits_def split: list.splits)
  have "laid_out paginate_init = []"
    by (simp add: laid_out_def paginate_init_def)
  then have whole: "concat (map page_blocks (result_pages (paginate p content_blocks))) = content_blocks"
    by (simp add: paginate_def paginate_finish_blocks laid_out_foldl)
  have "page_number (result_pages (paginate p content_blocks) ! i) = int i + 1 \<and>
      (block_heights p (page_blocks (result_pages (paginate p content_blocks) ! i))
         \<le> content_height p \<or>
       (\<exists>b. page_blocks (result_pages (paginate p content_blocks) ! i) = [b] \<and>
            content_height p < paginator_estimate_block_height p b))"
    if "i < length (result_pages (paginate p content_blocks))" for i
    using pages_inv_result [OF inv, of i] that fits by (simp add: paginate_def)
  with whole show ?thesis by blast
qed

theorem paginate_pages_fit_witness:
  "0 < length (result_pages (paginate (Paginator example_renderer) [paragraph_block ''a''])) \<and>
   page_number (result_pages (paginate (Paginator example_renderer) [paragraph_block ''a'']) ! 0) = 1 \<and>
   block_heights (Paginator example_renderer)
     (page_blocks (result_pages (paginate (Paginator example_renderer) [paragraph_block ''a'']) ! 0)) = 63 \<and>
   concat (map page_blocks (result_pages (paginate (Paginator example_renderer) [paragraph_block ''a''])))
     = [paragraph_block ''a'']"
proof -
  let ?res = "paginate (Paginator example_renderer) [paragraph_block ''a'']"
  have len: "0 < length (result_pages ?res)"
    by (simp add: paginate_eval)
  have h: "block_heights (Paginator example_renderer) (page_blocks (result_pages ?res ! 0)) = 63"
    by (simp add: paginate_eval block_heights_def)
  from paginate_pages_fit [of "Paginator example_renderer" "[paragraph_block ''a'']"] len h
  show ?thesis by simp
qed

subsection \<open>Chapter mappings\<close>




















section \<open>Properties of the binary structures\<close>

lemma le_bytes_numeral:
  "le_bytes (numeral k) v = of_int (v mod 256) # le_bytes (pred_numeral k) (v div 256)"
  by (simp add: numeral_eq_Suc)

lemma length_le_bytes [simp]: "length (le_bytes n v) = n"
  by (induction n arbitrary: v) simp_all

lemma le_value_le_bytes: "le_value (le_bytes n v) = v mod 256 ^ n"
proof (induction n arbitrary: v)
  case 0
  then show ?case by simp
next
  case (Suc n)
  have "uint (of_int (v mod 256) :: byte) = v mod 256"
    by (simp add: uint_word_of_int)
  then have "le_value (le_bytes (Suc n) v) = v mod 256 + 256 * ((v div 256) mod 256 ^ n)"
    by (simp add: Suc.IH)
  also have "\<dots> = v mod 256 ^ Suc n"
    by (simp add: zmod_zmult2_eq)
  finally show ?case .
qed

lemma le_value_le_bytes_id:
  "0 \<le> v \<Longrightarrow> v < 2 ^ (8 * n) \<Longrightarrow> le_value (le_bytes n v) = v"
proof -
  assume "0 \<le> v" "v < 2 ^ (8 * n)"
  moreover have "(256 :: int) ^ n = 2 ^ (8 * n)"
    by (simp add: power_mult)
  ultimately show ?thesis
    by (simp add: le_value_le_bytes)
qed

lemma le_value_bounds: "0 \<le> le_value bs \<and> le_value bs < 256 ^ length bs"
proof (induction bs)
  case Nil
  then show ?case by simp
next
  case (Cons b bs)
  have "0 \<le> uint b" "uint b < 256"
    using uint_bounded [of b] by simp_all
  with Cons show ?case by auto
qed

section \<open>Properties of the page encoders\<close>

lemma concat_uniform:
  assumes "list_all (\<lambda>xs. length xs = n) xss"
  shows "length (concat xss) = n * length xss"
    and "i < length xss \<Longrightarrow> j < n \<Longrightarrow> concat xss ! (i * n + j) = xss ! i ! j"
proof -
  show "length (concat xss) = n * length xss"
    using assms by (induction xss) simp_all
  show "i < length xss \<Longrightarrow> j < n \<Longrightarrow> concat xss ! (i * n + j) = xss ! i ! j"
    using assms
  proof (induction xss arbitrary: i)
    case Nil
    then show ?case by simp
  next
    case (Cons xs xss)
    show ?case
    proof (cases i)
      case 0
      then show ?thesis using Cons.prems by (simp add: nth_append)
    next
      case (Suc i')
      then have "concat xss ! (i' * n + j) = xss ! i' ! j"
        using Cons by simp
      moreover have "Suc i' * n + j = length xs + (i' * n + j)"
        using Cons.prems by simp
      ultimately show ?thesis
        using Suc by (simp only: concat.simps nth_append_length_plus nth_Cons_Suc)
    qed
  qed
qed

lemma groups_of_length [simp]: "length (groups_of n xs) = length xs div n"
  by (simp add: groups_of_def)

lemma groups_of_nth:
  "k < length xs div n \<Longrightarrow> groups_of n xs ! k = take n (drop (k * n) xs)"
  by (simp add: groups_of_def)

lemma packbits_big_bit:
  assumes "length g = 8" "j < 8"
  shows "bit (packbits_big g) (7 - j) \<longleftrightarrow> g ! j \<noteq> 0"
proof -
  have "bit (packbits_big g) (7 - j) \<longleftrightarrow> rev (map (\<lambda>b. b \<noteq> 0) g) ! (7 - j)"
  proof -
    have "7 - j < 8" by simp
    then show ?thesis
      using assms by (simp add: packbits_big_def bit_horner_sum_bit_word_iff)
  qed
  also have "\<dots> \<longleftrightarrow> map (\<lambda>b. b \<noteq> 0) g ! j"
    using assms by (simp add: rev_nth)
  finally show ?thesis
    using assms by simp
qed

lemma encode_xtg_header_ok:
  assumes "w < 65536" "h < 65536"
  shows "encode_xtg_header (int w) (int h) (int ((w + 7) div 8 * h)) =
     Inr (le_bytes 4 XTG_MARK @ le_bytes 2 (int w) @ le_bytes 2 (int h) @ [0, 0] @
          le_bytes 4 (int ((w + 7) div 8 * h)) @ le_bytes 8 0)"
proof -
  have "(w + 7) div 8 \<le> 8192"
    using assms(1) by simp
  then have "(w + 7) div 8 * h \<le> 8192 * 65536"
    using assms(2) by (intro mult_mono) simp_all
  then have "int ((w + 7) div 8 * h) \<le> int (8192 * 65536)"
    by (simp only: of_nat_le_iff)
  then have size: "int ((w + 7) div 8 * h) < 4294967296"
    by simp
  have mark: "0 \<le> XTG_MARK" "XTG_MARK < 4294967296"
    by (simp_all add: XTG_MARK_def)
  have dims: "int w < 65536" "int h < 65536"
    using assms by simp_all
  show ?thesis
    unfolding encode_xtg_header_def
    using size mark dims by simp
qed

text \<open>
  C6. For a greyscale buffer of width w and height h (each between 1 and 65535, the range
  of the header's 16-bit fields), \<open>encode_xtg_page\<close> returns the 22-byte header, which
  reports the width w unchanged, followed by exactly ceil(w/8) * h bytes. Byte k of row y
  holds the pixels 8k .. 8k+7 of that row, the leftmost in the most significant bit: the
  bit is 1 when the sample is at least 128 and 0 when it is below 128 or when the pixel
  lies beyond the width (the padding is black).
\<close>

theorem encode_xtg_page_packs:
  assumes "well_formed img" "img_mode img = Mode_L" "img_size img = (w, h)"
    and "0 < w" "w < 65536" "0 < h" "h < 65536"
  shows "\<exists>data.
     encode_xtg_page img =
       Inr (le_bytes 4 XTG_MARK @ le_bytes 2 (int w) @ le_bytes 2 (int h) @ [0, 0] @
            le_bytes 4 (int ((w + 7) div 8 * h)) @ le_bytes 8 0 @ data) \<and>
     length data = (w + 7) div 8 * h \<and>
     (\<forall>y < h. \<forall>k < (w + 7) div 8. \<forall>j < 8.
        bit (data ! (y * ((w + 7) div 8) + k)) (7 - j) \<longleftrightarrow>
          (8 * k + j < w \<and> 128 \<le> img_data img ! y ! (8 * k + j)))"
proof -
  define bpr where "bpr = (w + 7) div 8"
  define pix where "pix = map (map (\<lambda>x :: byte. if 128 \<le> x then 1 else 0 :: byte)) (img_data img)"
  define rows where "rows = map (\<lambda>row. row @ replicate (bpr * 8 - w) 0) pix"
  define data where "data = concat (map (\<lambda>row. map packbits_big (groups_of 8 row)) rows)"
  have h: "length (img_data img) = h"
    and w: "\<And>y. y < h \<Longrightarrow> length (img_data img ! y) = w"
    using assms(1,3) by (simp_all add: well_formed_def list_all_length)
  have wide: "w \<le> bpr * 8"
    by (simp add: bpr_def)
  have mono: "mono_array (point_threshold (convert_L img)) = pix"
    by (simp add: mono_array_def point_threshold_def convert_L_def pix_def)
  have padded: "pad_columns h (bpr * 8) w pix = rows"
    by (simp add: pad_columns_def rows_def pix_def h zip_replicate1 map_replicate_const [symmetric]
        del: replicate_eq_replicate map_replicate_const)
  have unpadded: "pix = rows" if "\<not> w < bpr * 8"
    using that wide by (simp add: rows_def)
  have pixels: "(if w < bpr * 8 then pad_columns h (bpr * 8) w pix else pix) = rows"
    using padded unpadded by simp
  have pixels': "(if w < bpr * 8
        then pad_columns h (bpr * 8) w (mono_array (point_threshold (convert_L img)))
        else mono_array (point_threshold (convert_L img))) = rows"
    unfolding mono by (rule pixels)
  have mode: "(if Mode_L \<noteq> Mode_1 then point_threshold (convert_L img) else img)
      = point_threshold (convert_L img)"
    by simp
  have enc: "encode_xtg_page img =
      (case encode_xtg_header (int w) (int h) (int (bpr * h)) of
         Inl e \<Rightarrow> Inl e
       | Inr header \<Rightarrow> Inr (header @ take (bpr * h) data))"
    unfolding encode_xtg_page_def Let_def assms(2,3) fst_conv snd_conv bpr_def [symmetric]
      mode pixels'
    using assms(6) by (simp add: data_def comp_def cong: sum.case_cong)
  have row_len: "length (rows ! y) = bpr * 8" if "y < h" for y
    using that wide by (simp add: rows_def pix_def h w)
  have uniform: "list_all (\<lambda>xs. length xs = bpr)
      (map (\<lambda>row. map packbits_big (groups_of 8 row)) rows)"
    using row_len by (simp add: list_all_length rows_def pix_def h)
  have len: "length data = bpr * h"
    using concat_uniform(1) [OF uniform] by (simp add: data_def rows_def pix_def h)
  have byte: "data ! (y * bpr + k) = packbits_big (take 8 (drop (k * 8) (rows ! y)))"
    if "y < h" "k < bpr" for y k
    using concat_uniform(2) [OF uniform, of y k] that row_len [OF that(1)]
    by (simp add: data_def rows_def pix_def h groups_of_nth)
  have bits: "bit (data ! (y * bpr + k)) (7 - j) \<longleftrightarrow>
      (8 * k + j < w \<and> 128 \<le> img_data img ! y ! (8 * k + j))"
    if "y < h" "k < bpr" "j < 8" for y k j
  proof -
    let ?g = "take 8 (drop (k * 8) (rows ! y))"
    have inside: "k * 8 + j < bpr * 8"
      using that(2,3) by simp
    have g: "length ?g = 8"
      using row_len [OF that(1)] that(2) by simp
    have "?g ! j = rows ! y ! (k * 8 + j)"
      using that(3) inside row_len [OF that(1)] by simp
    also have "\<dots> = (if k * 8 + j < w then pix ! y ! (k * 8 + j) else 0)"
      using that(1) inside by (simp add: rows_def pix_def h w nth_append)
    finally have "?g ! j \<noteq> 0 \<longleftrightarrow> (k * 8 + j < w \<and> 128 \<le> img_data img ! y ! (k * 8 + j))"
      using that(1) by (simp add: pix_def h w)
    then show ?thesis
      using packbits_big_bit [OF g that(3)] byte [OF that(1,2)] by (simp add: mult.commute)
  qed
  have "encode_xtg_page img =
       Inr (le_bytes 4 XTG_MARK @ le_bytes 2 (int w) @ le_bytes 2 (int h) @ [0, 0] @
            le_bytes 4 (int (bpr * h)) @ le_bytes 8 0 @ data)"
    using encode_xtg_header_ok [OF assms(5,7)] len
    by (simp add: enc bpr_def)
  with len bits show ?thesis
    unfolding bpr_def by blast
qed

theorem encode_xtg_page_packs_witness:
  "well_formed example_buffer \<and> img_mode example_buffer = Mode_L \<and>
   img_size example_buffer = (10, 2) \<and>
   length (projr (encode_xtg_page example_buffer)) = 22 + 2 * 2 \<and>
   bit (projr (encode_xtg_page example_buffer) ! 22) 7 \<and>
   \<not> bit (projr (encode_xtg_page example_buffer) ! 23) 5"
proof -
  have wf: "well_formed example_buffer" "img_mode example_buffer = Mode_L"
    "img_size example_buffer = (10, 2)"
    by (simp_all add: example_buffer_def well_formed_def)
  obtain data where enc: "encode_xtg_page example_buffer =
       Inr (le_bytes 4 XTG_MARK @ le_bytes 2 (int 10) @ le_bytes 2 (int 2) @ [0, 0] @
            le_bytes 4 (int ((10 + 7) div 8 * 2)) @ le_bytes 8 0 @ data)"
    and len: "length data = (10 + 7) div 8 * 2"
    and bits: "\<forall>y < 2. \<forall>k < (10 + 7) div 8. \<forall>j < 8.
        bit (data ! (y * ((10 + 7) div 8) + k)) (7 - j) \<longleftrightarrow>
          (8 * k + j < 10 \<and> 128 \<le> img_data example_buffer ! y ! (8 * k + j))"
    using encode_xtg_page_packs [OF wf] by auto
  let ?header = "le_bytes 4 XTG_MARK @ le_bytes 2 (int 10) @ le_bytes 2 (int 2) @ [0, 0] @
            le_bytes 4 (int ((10 + 7) div 8 * 2)) @ le_bytes 8 0"
  have hl: "length ?header = 22" by simp
  have blob: "projr (encode_xtg_page example_buffer) = ?header @ data"
    by (simp add: enc)
  have total: "length (projr (encode_xtg_page example_buffer)) = 22 + 2 * 2"
    unfolding blob length_append hl len by simp
  have at: "(?header @ data) ! (22 + m) = data ! m" for m
    using nth_append_length_plus [of ?header data m] unfolding hl .
  have b: "bit (data ! (y * 2 + k)) (7 - j) \<longleftrightarrow>
      (8 * k + j < 10 \<and> 128 \<le> img_data example_buffer ! y ! (8 * k + j))"
    if "y < 2" "k < 2" "j < 8" for y k j
    using bits that by simp
  have b0: "bit (data ! 0) 7"
    using b [of 0 0 0] by (simp add: example_buffer_def)
  have b1: "\<not> bit (data ! 1) 5"
    using b [of 0 1 2] by simp
  have "projr (encode_xtg_page example_buffer) ! 22 = data ! 0"
    "projr (encode_xtg_page example_buffer) ! 23 = data ! 1"
    unfolding blob using at [of 0] at [of 1] by simp_all
  with wf total b0 b1 show ?thesis by simp
qed

lemma encode_xth_header_8x8:
  "encode_xth_header 8 8 16 =
     Inr [0x58, 0x54, 0x48, 0, 8, 0, 8, 0, 0, 0, 16, 0, 0, 0, 0, 0, 0, 0, 0, 0, 0, 0]"
  by (simp add: encode_xth_header_def XTH_MARK_def le_bytes_numeral)

lemma quantize_all_black:
  assumes "well_formed img" "img_size img = (w, h)"
    and "list_all (list_all (\<lambda>s. quantize_sample s = 3)) (img_data img)"
  shows "quantize_to_4_levels img = replicate h (replicate w 3)"
proof (rule nth_equalityI)
  show len: "length (quantize_to_4_levels img) = length (replicate h (replicate w (3 :: byte)))"
    using assms(1,2) by (simp add: quantize_length well_formed_def)
  fix y
  assume "y < length (quantize_to_4_levels img)"
  then have y: "y < length (img_data img)" "y < h"
    using len by (simp_all add: quantize_length)
  have row: "length (img_data img ! y) = w"
    using assms(1,2) y(1) by (simp add: well_formed_def list_all_length)
  have "quantize_to_4_levels img ! y = replicate w 3"
  proof (rule nth_equalityI)
    show "length (quantize_to_4_levels img ! y) = length (replicate w (3 :: byte))"
      using y(1) row by (simp add: quantize_row_length)
    fix x
    assume "x < length (quantize_to_4_levels img ! y)"
    then have x: "x < length (img_data img ! y)"
      using y(1) by (simp add: quantize_row_length)
    have "quantize_sample (img_data img ! y ! x) = 3"
      using assms(3) y(1) x by (simp add: list_all_length)
    then show "quantize_to_4_levels img ! y ! x = replicate w 3 ! x"
      using y(1) x row by (simp add: quantize_nth quantize_sample_level)
  qed
  then show "quantize_to_4_levels img ! y = replicate h (replicate w 3) ! y"
    using y(2) by simp
qed

lemma replicate_8: "replicate 8 x = [x, x, x, x, x, x, x, x]"
  by (simp add: numeral_eq_Suc)

lemma upt_8: "[0 ..< 8] = [0, 1, 2, 3, 4, 5, 6, 7]"
  by (simp add: upt_rec)

text \<open>
  C10. For an 8 x 8 buffer whose every sample quantises to level 3, \<open>encode_xth_page\<close>
  returns the 22-byte header with dataSize 16 (one packed byte for each of the 8 columns,
  in each of the two bit planes) followed by the 8 bytes of plane 0 and the 8 bytes of
  plane 1, every one of them 0xFF.
\<close>

theorem encode_xth_page_all_black:
  assumes "well_formed img" "img_size img = (8, 8)"
    and "list_all (list_all (\<lambda>s. quantize_sample s = 3)) (img_data img)"
  shows "encode_xth_page img =
     Inr (le_bytes 4 XTH_MARK @ le_bytes 2 8 @ le_bytes 2 8 @ [0, 0] @ le_bytes 4 16 @
          le_bytes 8 0 @ replicate 8 0xFF @ replicate 8 0xFF)"
proof -
  have q: "quantize_to_4_levels img = replicate 8 (replicate 8 3)"
    using assms by (rule quantize_all_black)
  have ph: "((8 :: nat) + 7) div 8 * 8 = 8" "((8 :: nat) < 8) = False"
    by simp_all
  have plane0: "concat (map (map packbits_big) (columns_by_eights (8 div 8) 8
      (fliplr (map (map (\<lambda>q. q AND 1)) (replicate 8 (replicate 8 (3 :: byte)))))))
      = replicate 8 0xFF"
    by (simp add: columns_by_eights_def fliplr_def upt_8 packbits_big_def replicate_8)
  have plane1: "concat (map (map packbits_big) (columns_by_eights (8 div 8) 8
      (fliplr (map (map (\<lambda>q. drop_bit 1 q AND 1)) (replicate 8 (replicate 8 (3 :: byte)))))))
      = replicate 8 0xFF"
    by (simp add: columns_by_eights_def fliplr_def upt_8 packbits_big_def replicate_8)
  have "encode_xth_page img =
      (case encode_xth_header (int 8) (int 8) (int (length (replicate 8 (0xFF :: byte) @ replicate 8 0xFF))) of
         Inl e \<Rightarrow> Inl e
       | Inr header \<Rightarrow> Inr (header @ replicate 8 0xFF @ replicate 8 0xFF))"
    unfolding encode_xth_page_def Let_def assms(2) fst_conv snd_conv q
    by (simp only: ph if_False plane0 plane1)
  then show ?thesis
    by (simp add: encode_xth_header_8x8 le_bytes_numeral XTH_MARK_def)
qed

theorem encode_xth_page_all_black_witness:
  "well_formed black_8x8 \<and> img_size black_8x8 = (8, 8) \<and>
   list_all (list_all (\<lambda>s. quantize_sample s = 3)) (img_data black_8x8) \<and>
   encode_xth_page black_8x8 =
     Inr (le_bytes 4 XTH_MARK @ le_bytes 2 8 @ le_bytes 2 8 @ [0, 0] @ le_bytes 4 16 @
          le_bytes 8 0 @ replicate 8 0xFF @ replicate 8 0xFF)"
proof -
  have wf: "well_formed black_8x8" "img_size black_8x8 = (8, 8)"
    by (simp_all add: black_8x8_def well_formed_def replicate_8)
  have black: "list_all (list_all (\<lambda>s. quantize_sample s = 3)) (img_data black_8x8)"
    by (simp add: black_8x8_def replicate_8 quantize_sample_level level_of_def)
  from wf black encode_xth_page_all_black [OF wf black] show ?thesis by blast
qed

section \<open>Properties of the container\<close>

subsection \<open>Reading\<close>

lemma unpack_IHH_header:
  assumes "8 \<le> length file"
  shows "unpack_IHH (take 8 (take XTC_HEADER_SIZE file)) =
     Inr (field_at 4 0 file, field_at 2 4 file, field_at 2 6 file)"
proof -
  have "take 8 (take XTC_HEADER_SIZE file) = take 8 file"
    by (simp add: XTC_HEADER_SIZE_def)
  moreover have "length (take 8 file) = 8"
    using assms by simp
  moreover have "take 4 (take 8 file) = take 4 file"
    "take 2 (drop 4 (take 8 file)) = take 2 (drop 4 file)"
    "take 2 (drop 6 (take 8 file)) = take 2 (drop 6 file)"
    by (simp_all add: drop_take)
  ultimately show ?thesis
    by (simp add: unpack_IHH_def field_at_def)
qed

lemma unpack_IHH_short:
  assumes "length file < 8"
  shows "unpack_IHH (take 8 (take XTC_HEADER_SIZE file)) = Inl StructError"
  using assms by (simp add: unpack_IHH_def XTC_HEADER_SIZE_def)

text \<open>
  C4 (as amended). \<open>read_xtc_info\<close> does not reject an unknown magic. For a file of at
  least 8 bytes whose magic is neither that of XTC nor that of XTCH it returns a result:
  the format is the text "Unknown (0x" followed by the magic in eight upper-case
  hexadecimal digits and ")", and the version, page count and title are read as for a known
  magic. It fails, with \<open>struct.error\<close>, exactly when the file has fewer than 8 bytes.
\<close>

theorem read_xtc_info_unknown_magic:
  "(length file < 8 \<longrightarrow> read_xtc_info file = Inl StructError) \<and>
   (8 \<le> length file \<and> field_at 4 0 file \<noteq> XTC_MARK \<and> field_at 4 0 file \<noteq> XTCH_MARK \<longrightarrow>
      read_xtc_info file =
        Inr \<lparr>info_format = ''Unknown (0x'' @ format_08X (field_at 4 0 file) @ '')'',
             info_version = field_at 2 4 file,
             info_pages = field_at 2 6 file,
             info_title = decode_utf8_ignore 0
               (takeWhile (\<lambda>b. b \<noteq> 0) (take TITLE_MAX_SIZE (drop XTC_HEADER_SIZE file)))\<rparr>)"
proof -
  have short: "read_xtc_info file = Inl StructError" if "length file < 8"
    unfolding read_xtc_info_def Let_def
    by (simp only: unpack_IHH_short [OF that] sum.case)
  have unknown: "read_xtc_info file =
        Inr \<lparr>info_format = ''Unknown (0x'' @ format_08X (field_at 4 0 file) @ '')'',
             info_version = field_at 2 4 file,
             info_pages = field_at 2 6 file,
             info_title = decode_utf8_ignore 0
               (takeWhile (\<lambda>b. b \<noteq> 0) (take TITLE_MAX_SIZE (drop XTC_HEADER_SIZE file)))\<rparr>"
    if "8 \<le> length file" "field_at 4 0 file \<noteq> XTC_MARK" "field_at 4 0 file \<noteq> XTCH_MARK"
  proof -
    have "map_of [(XTC_MARK, ''XTC''), (XTCH_MARK, ''XTCH'')] (field_at 4 0 file) = None"
      using that(2,3) by simp
    then show ?thesis
      unfolding read_xtc_info_def Let_def
      by (simp only: unpack_IHH_header [OF that(1)] sum.case prod.case option.case)
  qed
  from short unknown show ?thesis by blast
qed

lemma zip_magic:
  "field_at 4 0 [0x50, 0x4B, 3, 4, 20, 0, 0, 0] = 0x04034B50"
  "field_at 2 4 [0x50, 0x4B, 3, 4, 20, 0, 0, 0] = 20"
  "field_at 2 6 [0x50, 0x4B, 3, 4, 20, 0, 0, 0] = 0"
  by (simp_all add: field_at_def)

lemma format_zip_magic: "format_08X 0x04034B50 = ''04034B50''"
  by (simp add: format_08X_def hex_digit_def upt_rec)

text \<open>
  A file that starts with the magic of a ZIP archive is read without an error.
\<close>

theorem read_xtc_info_counterexample:
  "field_at 4 0 [0x50, 0x4B, 3, 4, 20, 0, 0, 0] \<noteq> XTC_MARK \<and>
   field_at 4 0 [0x50, 0x4B, 3, 4, 20, 0, 0, 0] \<noteq> XTCH_MARK \<and>
   read_xtc_info [0x50, 0x4B, 3, 4, 20, 0, 0, 0] =
     Inr \<lparr>info_format = ''Unknown (0x04034B50)'', info_version = 20, info_pages = 0,
          info_title = []\<rparr>"
proof -
  let ?file = "[0x50, 0x4B, 3, 4, 20, 0, 0, 0 :: byte]"
  have magic: "field_at 4 0 ?file \<noteq> XTC_MARK" "field_at 4 0 ?file \<noteq> XTCH_MARK"
    by (simp_all add: zip_magic XTC_MARK_def XTCH_MARK_def)
  then have none: "map_of [(XTC_MARK, ''XTC''), (XTCH_MARK, ''XTCH'')] (field_at 4 0 ?file) = None"
    by simp
  have len: "8 \<le> length ?file" by simp
  have "read_xtc_info ?file =
      Inr \<lparr>info_format = ''Unknown (0x'' @ format_08X (field_at 4 0 ?file) @ '')'',
           info_version = field_at 2 4 ?file, info_pages = field_at 2 6 ?file,
           info_title = decode_utf8_ignore 0
             (takeWhile (\<lambda>b. b \<noteq> 0) (take TITLE_MAX_SIZE (drop XTC_HEADER_SIZE ?file)))\<rparr>"
    unfolding read_xtc_info_def Let_def
    by (simp only: unpack_IHH_header [OF len] none sum.case prod.case option.case)
  then have "read_xtc_info ?file =
      Inr \<lparr>info_format = ''Unknown (0x04034B50)'', info_version = 20, info_pages = 0,
           info_title = []\<rparr>"
    by (simp add: zip_magic format_zip_magic XTC_HEADER_SIZE_def)
  with magic show ?thesis by blast
qed

theorem read_xtc_info_unknown_magic_witness:
  "length [0x50, 0x4B, 3 :: byte] < 8 \<and>
   read_xtc_info [0x50, 0x4B, 3] = Inl StructError \<and>
   8 \<le> length [0x50, 0x4B, 3, 4, 20, 0, 0, 0 :: byte] \<and>
   field_at 4 0 [0x50, 0x4B, 3, 4, 20, 0, 0, 0] \<noteq> XTC_MARK \<and>
   field_at 4 0 [0x50, 0x4B, 3, 4, 20, 0, 0, 0] \<noteq> XTCH_MARK \<and>
   info_format (projr (read_xtc_info [0x50, 0x4B, 3, 4, 20, 0, 0, 0])) = ''Unknown (0x04034B50)''"
proof -
  have short: "length [0x50, 0x4B, 3 :: byte] < 8" by simp
  then have err: "read_xtc_info [0x50, 0x4B, 3] = Inl StructError"
    using read_xtc_info_unknown_magic [of "[0x50, 0x4B, 3]"] by blast
  have long: "8 \<le> length [0x50, 0x4B, 3, 4, 20, 0, 0, 0 :: byte]"
    "field_at 4 0 [0x50, 0x4B, 3, 4, 20, 0, 0, 0] \<noteq> XTC_MARK"
    "field_at 4 0 [0x50, 0x4B, 3, 4, 20, 0, 0, 0] \<noteq> XTCH_MARK"
    by (simp_all add: zip_magic XTC_MARK_def XTCH_MARK_def)
  then have "info_format (projr (read_xtc_info [0x50, 0x4B, 3, 4, 20, 0, 0, 0]))
      = ''Unknown (0x'' @ format_08X (field_at 4 0 [0x50, 0x4B, 3, 4, 20, 0, 0, 0]) @ '')''"
    using read_xtc_info_unknown_magic [of "[0x50, 0x4B, 3, 4, 20, 0, 0, 0]"] by simp
  then have "info_format (projr (read_xtc_info [0x50, 0x4B, 3, 4, 20, 0, 0, 0]))
      = ''Unknown (0x04034B50)''"
    by (simp add: zip_magic format_zip_magic)
  with short err long show ?thesis by blast
qed

subsection \<open>Writing\<close>

lemma length_entry_bytes [simp]: "length (entry_bytes off p) = 16"
  by (simp add: entry_bytes_def)

lemma length_table_entries [simp]: "length (table_entries off ps) = 16 * length ps"
  by (induction ps arbitrary: off) simp_all

lemma field_at_bounds: "0 \<le> field_at n k bs \<and> field_at n k bs < 256 ^ n"
proof -
  have "field_at n k bs < 256 ^ length (take n (drop k bs))"
    using le_value_bounds [of "take n (drop k bs)"] by (simp add: field_at_def)
  also have "\<dots> \<le> 256 ^ n"
    by (rule power_increasing) simp_all
  finally show ?thesis
    using le_value_bounds [of "take n (drop k bs)"] by (simp add: field_at_def)
qed

lemma unpack_IHH_page:
  assumes "unpack_IHH (take 8 p) = Inr (m, w, h)"
  shows "8 \<le> length p" "w = field_at 2 4 p" "h = field_at 2 6 p"
proof -
  show len: "8 \<le> length p"
    using assms by (simp add: unpack_IHH_def split: if_splits)
  have "take 2 (drop 4 (take 8 p)) = take 2 (drop 4 p)"
    "take 2 (drop 6 (take 8 p)) = take 2 (drop 6 p)"
    by (simp_all add: drop_take)
  then show "w = field_at 2 4 p" "h = field_at 2 6 p"
    using assms by (simp_all add: unpack_IHH_def field_at_def split: if_splits)
qed

lemma struct_pack_Inr:
  assumes "struct_pack items = Inr bs"
  shows "bs = concat (map (\<lambda>(n, v). le_bytes n v) items)"
    and "list_all (\<lambda>(n, v). 0 \<le> v \<and> v < 2 ^ (8 * n)) items"
  using assms
  by (induction items arbitrary: bs) (auto split: if_splits sum.splits)

lemma struct_pack_fits:
  assumes "list_all (\<lambda>(n, v). 0 \<le> v \<and> v < 2 ^ (8 * n)) items"
  shows "struct_pack items = Inr (concat (map (\<lambda>(n, v). le_bytes n v) items))"
  using assms by (induction items) auto

lemma pack_entry:
  assumes "pack_into [(8, off), (4, sz), (2, w), (2, h)] tbl pos = Inr tbl'"
  shows "0 \<le> off" "off < 2 ^ 64" "0 \<le> sz" "sz < 2 ^ 32" "pos + 16 \<le> length tbl"
    "tbl' = take pos tbl @ (le_bytes 8 off @ le_bytes 4 sz @ le_bytes 2 w @ le_bytes 2 h) @
            drop (pos + 16) tbl"
proof -
  obtain bs where bs: "struct_pack [(8, off), (4, sz), (2, w), (2, h)] = Inr bs"
    using assms by (auto simp only: pack_into_def split: sum.splits)
  note packed = struct_pack_Inr [OF bs]
  have bytes: "bs = le_bytes 8 off @ le_bytes 4 sz @ le_bytes 2 w @ le_bytes 2 h"
    using packed(1) by simp
  show "0 \<le> off" "off < 2 ^ 64" "0 \<le> sz" "sz < 2 ^ 32"
    using packed(2) by simp_all
  have len: "length bs = 16"
    by (simp add: bytes)
  have fits: "\<not> length tbl < pos + 16"
    and tbl': "tbl' = take pos tbl @ bs @ drop (pos + 16) tbl"
    using assms unfolding pack_into_def bs sum.case len
    by (simp_all split: if_splits)
  from fits show "pos + 16 \<le> length tbl" by simp
  from tbl' show "tbl' = take pos tbl @ (le_bytes 8 off @ le_bytes 4 sz @ le_bytes 2 w @ le_bytes 2 h) @
            drop (pos + 16) tbl"
    by (simp only: bytes)
qed

lemma page_table_step:
  assumes "page_table_loop i (p # ps) (tbl, off) = Inr res"
  shows "8 \<le> length p" "0 \<le> off" "off < 2 ^ 64" "int (length p) < 2 ^ 32"
    "i * 16 + 16 \<le> length tbl"
    "page_table_loop (Suc i) ps
       (take (i * 16) tbl @ entry_bytes off p @ drop (i * 16 + 16) tbl, off + int (length p))
     = Inr res"
proof -
  let ?pack = "\<lambda>w h. pack_into [(8, off), (4, int (length p)), (2, w), (2, h)] tbl
      (i * PAGE_TABLE_ENTRY_SIZE)"
  have eq: "(case unpack_IHH (take 8 p) of
       Inl e \<Rightarrow> Inl e
     | Inr (mark, width, height) \<Rightarrow>
         (case ?pack width height of
            Inl e \<Rightarrow> Inl e
          | Inr page_table \<Rightarrow> page_table_loop (Suc i) ps (page_table, off + int (length p))))
     = Inr res"
    using assms by (simp only: page_table_loop.simps Let_def fst_conv snd_conv)
  then obtain t where t: "unpack_IHH (take 8 p) = Inr t"
    by (cases "unpack_IHH (take 8 p)") simp_all
  obtain m w h where u: "unpack_IHH (take 8 p) = Inr (m, w, h)"
    using t by (cases t) simp
  have eq2: "(case ?pack w h of
        Inl e \<Rightarrow> Inl e
      | Inr page_table \<Rightarrow> page_table_loop (Suc i) ps (page_table, off + int (length p)))
     = Inr res"
    using eq by (simp only: u sum.case prod.case)
  then obtain tbl' where pk0: "?pack w h = Inr tbl'"
    by (cases "?pack w h") simp_all
  have rest: "page_table_loop (Suc i) ps (tbl', off + int (length p)) = Inr res"
    using eq2 by (simp only: pk0 sum.case)
  have pk: "pack_into [(8, off), (4, int (length p)), (2, w), (2, h)] tbl (i * 16) = Inr tbl'"
    using pk0 by (simp only: PAGE_TABLE_ENTRY_SIZE_def)
  show "8 \<le> length p"
    using u by (rule unpack_IHH_page)
  show "0 \<le> off" "off < 2 ^ 64" "int (length p) < 2 ^ 32" "i * 16 + 16 \<le> length tbl"
    using pack_entry(1-5) [OF pk] by simp_all
  have "tbl' = take (i * 16) tbl @ entry_bytes off p @ drop (i * 16 + 16) tbl"
    using pack_entry(6) [OF pk] unpack_IHH_page(2,3) [OF u]
    by (simp add: entry_bytes_def)
  with rest show "page_table_loop (Suc i) ps
       (take (i * 16) tbl @ entry_bytes off p @ drop (i * 16 + 16) tbl, off + int (length p))
     = Inr res"
    by simp
qed

lemma page_table_loop_Nil: "page_table_loop i [] st = Inr res \<Longrightarrow> res = st"
  by simp

lemma page_table_loop_result:
  assumes "page_table_loop i ps (tbl, off) = Inr (tbl', off')"
  shows "16 * (i + length ps) \<le> length tbl \<or> ps = []"
    and "tbl' = take (16 * i) tbl @ table_entries off ps @ drop (16 * (i + length ps)) tbl"
  using assms
proof (induction ps arbitrary: i tbl off)
  case Nil
  {
    case 1
    show ?case by simp
  next
    case 2
    then show ?case by simp
  }
next
  case (Cons p ps)
  {
    case 1
    let ?tbl1 = "take (i * 16) tbl @ entry_bytes off p @ drop (i * 16 + 16) tbl"
    note step = page_table_step [OF 1]
    have len1: "length ?tbl1 = length tbl"
      using step(5) by simp
    have "16 * (Suc i + length ps) \<le> length ?tbl1 \<or> ps = []"
      using step(6) by (rule Cons.IH(1))
    then have "16 * (Suc i + length ps) \<le> length tbl \<or> ps = []"
      unfolding len1 .
    then have "16 * (i + length (p # ps)) \<le> length tbl"
      using step(5) by auto
    then show ?case by simp
  next
    case 2
    let ?tbl1 = "take (i * 16) tbl @ entry_bytes off p @ drop (i * 16 + 16) tbl"
    note step = page_table_step [OF 2]
    have len1: "length ?tbl1 = length tbl"
      using step(5) by simp
    have "16 * (Suc i + length ps) \<le> length ?tbl1 \<or> ps = []"
      using step(6) by (rule Cons.IH(1))
    then have "16 * (Suc i + length ps) \<le> length tbl \<or> ps = []"
      unfolding len1 .
    then have fits: "16 * (Suc i + length ps) \<le> length tbl"
      using step(5) by auto
    have front: "length (take (i * 16) tbl) = i * 16"
      using step(5) by simp
    have head: "take (16 * Suc i) ?tbl1 = take (16 * i) tbl @ entry_bytes off p"
      using front by (simp add: mult.commute)
    have "drop (16 * (Suc i + length ps)) ?tbl1
        = drop (16 * (Suc i + length ps) - (i * 16 + 16)) (drop (i * 16 + 16) tbl)"
      using front by simp
    also have "16 * (Suc i + length ps) - (i * 16 + 16) = 16 * length ps"
      by simp
    also have "drop (16 * length ps) (drop (i * 16 + 16) tbl)
        = drop (16 * (i + length (p # ps))) tbl"
      by (simp add: algebra_simps)
    finally have tail: "drop (16 * (Suc i + length ps)) ?tbl1
        = drop (16 * (i + length (p # ps))) tbl" .
    have "tbl' = take (16 * Suc i) ?tbl1 @ table_entries (off + int (length p)) ps @
        drop (16 * (Suc i + length ps)) ?tbl1"
      using step(6) by (rule Cons.IH(2))
    then show ?case
      by (simp only: head tail table_entries.simps append.assoc)
  }
qed

lemma page_table_loop_fits:
  "page_table_loop i ps (tbl, off) = Inr res \<Longrightarrow> entries_fit off ps"
proof (induction ps arbitrary: i tbl off)
  case Nil
  then show ?case by simp
next
  case (Cons p ps)
  note step = page_table_step [OF Cons.prems]
  from step(6) have "entries_fit (off + int (length p)) ps"
    by (rule Cons.IH)
  with step(1-4) show ?case by simp
qed

lemma blob_offset_simps:
  "blob_offset base blobs 0 = base"
  "blob_offset base (p # ps) (Suc i) = blob_offset (base + int (length p)) ps i"
  by (simp_all add: blob_offset_def)

lemma blob_offset_Suc:
  "i < length blobs \<Longrightarrow>
   blob_offset base blobs (Suc i) = blob_offset base blobs i + int (length (blobs ! i))"
  by (simp add: blob_offset_def take_Suc_conv_app_nth)

lemma table_entries_nth:
  assumes "entries_fit off ps" "i < length ps"
  shows "take 16 (drop (16 * i) (table_entries off ps)) = entry_bytes (blob_offset off ps i) (ps ! i) \<and>
         0 \<le> blob_offset off ps i \<and> blob_offset off ps i < 2 ^ 64 \<and>
         8 \<le> length (ps ! i) \<and> int (length (ps ! i)) < 2 ^ 32"
  using assms
proof (induction ps arbitrary: off i)
  case Nil
  then show ?case by simp
next
  case (Cons p ps)
  show ?case
  proof (cases i)
    case 0
    then show ?thesis
      using Cons.prems by (simp add: blob_offset_simps)
  next
    case (Suc i')
    then have "i' < length ps" "entries_fit (off + int (length p)) ps"
      using Cons.prems by simp_all
    from Cons.IH [OF this(2,1)] show ?thesis
      by (simp add: Suc blob_offset_simps)
  qed
qed

lemma field_at_append1: "k + n \<le> length a \<Longrightarrow> field_at n k (a @ b) = field_at n k a"
  by (simp add: field_at_def)

lemma field_at_append2: "field_at n (length a + k) (a @ b) = field_at n k b"
  by (simp add: field_at_def)

lemma field_at_slice:
  "k + n \<le> m \<Longrightarrow> field_at n (j + k) bs = field_at n k (take m (drop j bs))"
  by (simp add: field_at_def drop_take add.commute min_def)

lemma field_at_le_bytes:
  assumes "0 \<le> v" "v < 2 ^ (8 * n)"
  shows "field_at n (length a) (a @ le_bytes n v @ b) = v"
  using assms by (simp add: field_at_def le_value_le_bytes_id)

lemma entry_bytes_fields:
  assumes "0 \<le> off" "off < 2 ^ 64" "int (length p) < 2 ^ 32"
  shows "field_at 8 0 (entry_bytes off p) = off"
    and "field_at 4 8 (entry_bytes off p) = int (length p)"
    and "field_at 2 12 (entry_bytes off p) = field_at 2 4 p"
    and "field_at 2 14 (entry_bytes off p) = field_at 2 6 p"
proof -
  show "field_at 8 0 (entry_bytes off p) = off"
    using assms field_at_le_bytes [of off 8 "[]"] by (simp add: entry_bytes_def)
  show "field_at 4 8 (entry_bytes off p) = int (length p)"
    using assms field_at_le_bytes [of "int (length p)" 4 "le_bytes 8 off"]
    by (simp add: entry_bytes_def)
  have w: "0 \<le> field_at 2 4 p" "field_at 2 4 p < 2 ^ (8 * 2)"
    and h: "0 \<le> field_at 2 6 p" "field_at 2 6 p < 2 ^ (8 * 2)"
    using field_at_bounds [of 2 4 p] field_at_bounds [of 2 6 p] by simp_all
  show "field_at 2 12 (entry_bytes off p) = field_at 2 4 p"
    using field_at_le_bytes [OF w, of "le_bytes 8 off @ le_bytes 4 (int (length p))"]
    by (simp add: entry_bytes_def)
  show "field_at 2 14 (entry_bytes off p) = field_at 2 6 p"
    using field_at_le_bytes [OF h,
        of "le_bytes 8 off @ le_bytes 4 (int (length p)) @ le_bytes 2 (field_at 2 4 p)" "[]"]
    by (simp add: entry_bytes_def)
qed

lemma write_xtc_container_file:
  assumes "write_xtc_container blobs chapters metadata is_grayscale = Inr file"
  obtains header title
  where "file = header @ title @ table_entries (int (184 + 16 * length blobs)) blobs @ concat blobs"
    and "length header = 56" and "length title = 128"
    and "field_at 2 6 header = int (length blobs)"
    and "field_at 8 24 header = 184"
    and "field_at 8 32 header = 184 + 16 * int (length blobs)"
    and "entries_fit (int (184 + 16 * length blobs)) blobs"
proof -
  let ?n = "length blobs"
  let ?mark = "if is_grayscale then XTCH_MARK else XTC_MARK"
  let ?items = "[(4, ?mark), (2, 1), (2, int ?n), (4, 0), (4, 88), (4, 0), (4, 0),
      (8, int (XTC_HEADER_SIZE + TITLE_MAX_SIZE)),
      (8, int (XTC_HEADER_SIZE + TITLE_MAX_SIZE + ?n * PAGE_TABLE_ENTRY_SIZE)), (8, 0),
      (4, int XTC_HEADER_SIZE)]"
  let ?loop = "page_table_loop 0 blobs
      (replicate (?n * PAGE_TABLE_ENTRY_SIZE) 0,
       int (XTC_HEADER_SIZE + TITLE_MAX_SIZE + ?n * PAGE_TABLE_ENTRY_SIZE))"
  obtain encoded where enc: "encode_utf8 (meta_title metadata) = Inr encoded"
    using assms by (cases "encode_utf8 (meta_title metadata)") (simp_all add: write_xtc_container_def)
  define title where "title = ljust (take (TITLE_MAX_SIZE - 1) encoded @ [0]) TITLE_MAX_SIZE 0"
  have eq1: "(case ?loop of
        Inl e \<Rightarrow> Inl e
      | Inr (page_table, current_data_offset) \<Rightarrow>
          (case struct_pack ?items of
             Inl e \<Rightarrow> Inl e
           | Inr packed \<Rightarrow> Inr ((packed @ replicate 4 0) @ title @ page_table @ concat blobs)))
      = Inr file"
    using assms unfolding write_xtc_container_def Let_def enc sum.case title_def .
  then obtain res where res: "?loop = Inr res"
    by (cases ?loop) simp_all
  obtain tbl off' where loop: "?loop = Inr (tbl, off')"
    using res by (cases res) simp
  have eq2: "(case struct_pack ?items of
        Inl e \<Rightarrow> Inl e
      | Inr packed \<Rightarrow> Inr ((packed @ replicate 4 0) @ title @ tbl @ concat blobs)) = Inr file"
    using eq1 by (simp only: loop sum.case prod.case)
  then obtain packed where packed: "struct_pack ?items = Inr packed"
    by (cases "struct_pack ?items") simp_all
  have file_eq: "file = (packed @ replicate 4 0) @ title @ tbl @ concat blobs"
    using eq2 by (simp only: packed sum.case sum.inject)
  have base: "int (XTC_HEADER_SIZE + TITLE_MAX_SIZE + ?n * PAGE_TABLE_ENTRY_SIZE) = int (184 + 16 * ?n)"
    by (simp add: XTC_HEADER_SIZE_def TITLE_MAX_SIZE_def PAGE_TABLE_ENTRY_SIZE_def)
  have loop': "page_table_loop 0 blobs (replicate (16 * ?n) 0, int (184 + 16 * ?n)) = Inr (tbl, off')"
    using loop unfolding base by (simp add: PAGE_TABLE_ENTRY_SIZE_def mult.commute)
  have tbl: "tbl = table_entries (int (184 + 16 * ?n)) blobs"
    using page_table_loop_result(2) [OF loop'] by simp
  have fit: "entries_fit (int (184 + 16 * ?n)) blobs"
    using loop' by (rule page_table_loop_fits)
  note items = struct_pack_Inr [OF packed]
  have count: "int ?n < 2 ^ 16" and offs: "int (184 + 16 * ?n) < 2 ^ 64"
    using items(2) by (simp_all add: XTC_HEADER_SIZE_def TITLE_MAX_SIZE_def PAGE_TABLE_ENTRY_SIZE_def)
  have bytes: "packed = le_bytes 4 ?mark @ le_bytes 2 1 @ le_bytes 2 (int ?n) @ le_bytes 4 0 @
      le_bytes 4 88 @ le_bytes 4 0 @ le_bytes 4 0 @ le_bytes 8 184 @
      le_bytes 8 (int (184 + 16 * ?n)) @ le_bytes 8 0 @ le_bytes 4 56"
    using items(1)
    by (simp add: XTC_HEADER_SIZE_def TITLE_MAX_SIZE_def PAGE_TABLE_ENTRY_SIZE_def mult.commute)
  let ?header = "packed @ replicate 4 0"
  have len: "length ?header = 56"
    by (simp add: bytes)
  have title_len: "length title = 128"
    by (simp add: title_def ljust_def TITLE_MAX_SIZE_def)
  have f6: "field_at 2 6 ?header = int ?n"
    using count field_at_le_bytes [of "int ?n" 2 "le_bytes 4 ?mark @ le_bytes 2 1"]
    by (simp add: bytes)
  have f24: "field_at 8 24 ?header = 184"
    using field_at_le_bytes [of 184 8 "le_bytes 4 ?mark @ le_bytes 2 1 @ le_bytes 2 (int ?n) @
        le_bytes 4 0 @ le_bytes 4 88 @ le_bytes 4 0 @ le_bytes 4 0"]
    by (simp add: bytes)
  have f32: "field_at 8 32 ?header = 184 + 16 * int ?n"
    using offs field_at_le_bytes [of "int (184 + 16 * ?n)" 8
        "le_bytes 4 ?mark @ le_bytes 2 1 @ le_bytes 2 (int ?n) @
         le_bytes 4 0 @ le_bytes 4 88 @ le_bytes 4 0 @ le_bytes 4 0 @ le_bytes 8 184"]
    by (simp add: bytes)
  show thesis
  proof (rule that)
    show "file = ?header @ title @ table_entries (int (184 + 16 * ?n)) blobs @ concat blobs"
      by (simp only: file_eq tbl)
  qed (fact len title_len f6 f24 f32 fit)+
qed

text \<open>The writer succeeds when the title can be encoded, the pages are counted by 16 bits and every entry can be packed.\<close>

lemma unpack_IHH_fits:
  assumes "8 \<le> length p"
  shows "unpack_IHH (take 8 p) = Inr (field_at 4 0 p, field_at 2 4 p, field_at 2 6 p)"
proof -
  have "length (take 8 p) = 8"
    using assms by simp
  moreover have "take 4 (take 8 p) = take 4 p"
    "take 2 (drop 4 (take 8 p)) = take 2 (drop 4 p)"
    "take 2 (drop 6 (take 8 p)) = take 2 (drop 6 p)"
    by (simp_all add: drop_take)
  ultimately show ?thesis
    by (simp add: unpack_IHH_def field_at_def)
qed

lemma page_table_loop_succeeds:
  assumes "entries_fit off ps" "16 * (i + length ps) \<le> length tbl"
  shows "\<exists>res. page_table_loop i ps (tbl, off) = Inr res"
  using assms
proof (induction ps arbitrary: i tbl off)
  case Nil
  then show ?case by simp
next
  case (Cons p ps)
  let ?w = "field_at 2 4 p" and ?h = "field_at 2 6 p"
  let ?items = "[(8, off), (4, int (length p)), (2, ?w), (2, ?h)]"
  let ?tbl1 = "take (i * 16) tbl @ entry_bytes off p @ drop (i * 16 + 16) tbl"
  from Cons.prems(1) have p: "8 \<le> length p" "0 \<le> off" "off < 2 ^ 64" "int (length p) < 2 ^ 32"
    and rest: "entries_fit (off + int (length p)) ps"
    by simp_all
  have dims: "0 \<le> ?w" "?w < 2 ^ (8 * 2)" "0 \<le> ?h" "?h < 2 ^ (8 * 2)"
    using field_at_bounds [of 2 4 p] field_at_bounds [of 2 6 p] by simp_all
  have "struct_pack ?items = Inr (concat (map (\<lambda>(n, v). le_bytes n v) ?items))"
    using p(2-4) dims by (intro struct_pack_fits) simp
  then have packed: "struct_pack ?items = Inr (entry_bytes off p)"
    by (simp add: entry_bytes_def)
  have room: "i * 16 + 16 \<le> length tbl"
    using Cons.prems(2) by simp
  have pack: "pack_into ?items tbl (i * PAGE_TABLE_ENTRY_SIZE) = Inr ?tbl1"
    unfolding pack_into_def packed sum.case PAGE_TABLE_ENTRY_SIZE_def
    using room by simp
  have step: "page_table_loop i (p # ps) (tbl, off)
      = page_table_loop (Suc i) ps (?tbl1, off + int (length p))"
    by (simp only: page_table_loop.simps Let_def fst_conv snd_conv unpack_IHH_fits [OF p(1)]
        sum.case prod.case pack)
  have "16 * (Suc i + length ps) \<le> length ?tbl1"
    using Cons.prems(2) room by simp
  with rest have "\<exists>res. page_table_loop (Suc i) ps (?tbl1, off + int (length p)) = Inr res"
    by (rule Cons.IH)
  then show ?case
    by (simp only: step)
qed

lemma write_xtc_container_succeeds:
  assumes "encode_utf8 (meta_title metadata) = Inr encoded"
    and "length blobs < 65536"
    and "entries_fit (int (184 + 16 * length blobs)) blobs"
  shows "\<exists>file. write_xtc_container blobs chapters metadata is_grayscale = Inr file"
proof -
  let ?n = "length blobs"
  have "\<exists>res. page_table_loop 0 blobs (replicate (16 * ?n) 0, int (184 + 16 * ?n)) = Inr res"
    using assms(3) by (intro page_table_loop_succeeds) simp_all
  then obtain tbl off' where
    loop: "page_table_loop 0 blobs (replicate (16 * ?n) 0, int (184 + 16 * ?n)) = Inr (tbl, off')"
    by auto
  have mark: "0 \<le> (if is_grayscale then XTCH_MARK else XTC_MARK)"
    "(if is_grayscale then XTCH_MARK else XTC_MARK) < 2 ^ 32"
    by (simp_all add: XTCH_MARK_def XTC_MARK_def)
  let ?items = "[(4, if is_grayscale then XTCH_MARK else XTC_MARK), (2, 1), (2, int ?n), (4, 0),
      (4, 88), (4, 0), (4, 0), (8, int (56 + 128)), (8, int (56 + 128 + ?n * 16)), (8, 0),
      (4, int 56)]"
  have "struct_pack ?items = Inr (concat (map (\<lambda>(n, v). le_bytes n v) ?items))"
    using assms(2) mark by (intro struct_pack_fits) simp
  then obtain packed where packed: "struct_pack ?items = Inr packed"
    by blast
  have loop': "page_table_loop 0 blobs (replicate (?n * 16) 0, int (56 + 128 + ?n * 16)) = Inr (tbl, off')"
    using loop by (simp add: mult.commute)
  show ?thesis
    unfolding write_xtc_container_def Let_def assms(1) sum.case
      XTC_HEADER_SIZE_def TITLE_MAX_SIZE_def PAGE_TABLE_ENTRY_SIZE_def
    by (simp only: loop' packed sum.case prod.case) blast
qed

lemma concat_take_drop_nth:
  assumes "i < length xss"
  shows "take (length (xss ! i)) (drop (length (concat (take i xss))) (concat xss)) = xss ! i"
proof -
  have "concat xss = concat (take i xss) @ xss ! i @ concat (drop (Suc i) xss)"
    using assms by (metis append_take_drop_id concat_append concat.simps(2) Cons_nth_drop_Suc)
  then have "drop (length (concat (take i xss))) (concat xss) = xss ! i @ concat (drop (Suc i) xss)"
    by (metis append_eq_conv_conj)
  then show ?thesis by simp
qed

text \<open>
  C5. In a container the writer produces, the header's pageTableOffset is 184, its
  dataOffset is 184 + 16 * pageCount and its pageCount is the number of page blobs, which
  is the number of 16-byte table entries between the two offsets. The first entry's offset
  is dataOffset; every entry's offset plus its size is the next entry's offset, and the
  offsets increase strictly; every entry's width and height are those of its blob's own
  header; and every entry's offset and size delimit its blob in the file.
\<close>

theorem write_xtc_container_table:
  assumes "write_xtc_container blobs chapters metadata is_grayscale = Inr file"
  shows "field_at 8 24 file = 184 \<and>
    field_at 8 32 file = 184 + 16 * int (length blobs) \<and>
    field_at 2 6 file = int (length blobs) \<and>
    length file = 184 + 16 * length blobs + length (concat blobs) \<and>
    (blobs \<noteq> [] \<longrightarrow> entry_offset file 0 = field_at 8 32 file) \<and>
    (\<forall>i. Suc i < length blobs \<longrightarrow>
       entry_offset file i + entry_size file i = entry_offset file (Suc i) \<and>
       entry_offset file i < entry_offset file (Suc i)) \<and>
    (\<forall>i < length blobs.
       entry_width file i = field_at 2 4 (blobs ! i) \<and>
       entry_height file i = field_at 2 6 (blobs ! i) \<and>
       entry_size file i = int (length (blobs ! i)) \<and>
       take (length (blobs ! i)) (drop (nat (entry_offset file i)) file) = blobs ! i)"
proof -
  let ?n = "length blobs"
  let ?base = "int (184 + 16 * ?n)"
  let ?table = "table_entries ?base blobs"
  from assms obtain header title
    where file_eq: "file = header @ title @ ?table @ concat blobs"
      and lens: "length header = 56" "length title = 128"
      and hdr: "field_at 2 6 header = int ?n" "field_at 8 24 header = 184"
        "field_at 8 32 header = 184 + 16 * int ?n"
      and fit: "entries_fit ?base blobs"
    by (rule write_xtc_container_file)
  have h24: "field_at 8 24 file = 184"
    and h32: "field_at 8 32 file = 184 + 16 * int ?n"
    and h6: "field_at 2 6 file = int ?n"
    using hdr lens by (simp_all add: file_eq field_at_append1)
  have len: "length file = 184 + 16 * ?n + length (concat blobs)"
    using lens by (simp add: file_eq)
  have entry: "field_at m (184 + 16 * i + k) file =
      field_at m k (entry_bytes (blob_offset ?base blobs i) (blobs ! i))"
    if "i < ?n" "k + m \<le> 16" for i k m
  proof -
    have front: "length (header @ title) = 184"
      using lens by simp
    have "field_at m (184 + 16 * i + k) file
        = field_at m (length (header @ title) + (16 * i + k)) ((header @ title) @ ?table @ concat blobs)"
      by (simp only: front file_eq append.assoc add.assoc)
    also have "\<dots> = field_at m (16 * i + k) (?table @ concat blobs)"
      by (rule field_at_append2)
    also have "\<dots> = field_at m (16 * i + k) ?table"
      using that by (intro field_at_append1) simp
    also have "\<dots> = field_at m k (take 16 (drop (16 * i) ?table))"
      using that(2) by (rule field_at_slice)
    also have "take 16 (drop (16 * i) ?table) = entry_bytes (blob_offset ?base blobs i) (blobs ! i)"
      using table_entries_nth [OF fit that(1)] by simp
    finally show ?thesis .
  qed
  have fields: "entry_offset file i = blob_offset ?base blobs i"
      "entry_size file i = int (length (blobs ! i))"
      "entry_width file i = field_at 2 4 (blobs ! i)"
      "entry_height file i = field_at 2 6 (blobs ! i)"
    if "i < ?n" for i
  proof -
    note ok = table_entries_nth [OF fit that]
    note ef = entry_bytes_fields [of "blob_offset ?base blobs i" "blobs ! i"]
    show "entry_offset file i = blob_offset ?base blobs i"
      using entry [OF that, of 0 8] ef(1) ok by (simp add: entry_offset_def)
    show "entry_size file i = int (length (blobs ! i))"
      using entry [OF that, of 8 4] ef(2) ok by (simp add: entry_size_def)
    show "entry_width file i = field_at 2 4 (blobs ! i)"
      using entry [OF that, of 12 2] ef(3) ok by (simp add: entry_width_def)
    show "entry_height file i = field_at 2 6 (blobs ! i)"
      using entry [OF that, of 14 2] ef(4) ok by (simp add: entry_height_def)
  qed
  have first: "entry_offset file 0 = field_at 8 32 file" if "blobs \<noteq> []"
    using that fields(1) [of 0] by (simp add: h32 blob_offset_simps)
  have chain: "entry_offset file i + entry_size file i = entry_offset file (Suc i) \<and>
       entry_offset file i < entry_offset file (Suc i)"
    if "Suc i < ?n" for i
  proof -
    have i: "i < ?n" using that by simp
    have "8 \<le> length (blobs ! i)"
      using table_entries_nth [OF fit i] by simp
    then have "0 < int (length (blobs ! i))"
      by linarith
    then show ?thesis
      using fields(1,2) [OF i] fields(1) [OF that] blob_offset_Suc [OF i, of ?base]
      by (simp del: of_nat_0_less_iff)
  qed
  have located: "take (length (blobs ! i)) (drop (nat (entry_offset file i)) file) = blobs ! i"
    if "i < ?n" for i
  proof -
    have "nat (entry_offset file i) = length (header @ title @ ?table) + length (concat (take i blobs))"
      using lens by (simp add: fields(1) [OF that] blob_offset_def)
    then have "drop (nat (entry_offset file i)) file = drop (length (concat (take i blobs))) (concat blobs)"
      by (simp add: file_eq)
    then show ?thesis
      using concat_take_drop_nth [OF that] by simp
  qed
  from h24 h32 h6 len first chain fields(2-4) located show ?thesis
    by blast
qed

lemma example_container:
  "\<exists>file. write_xtc_container [white_row_page, white_row_page] [] example_metadata True = Inr file"
  by (simp add: write_xtc_container_def Let_def example_metadata_def pystr_def utf8_char_def
      white_row_page_def unpack_IHH_def pack_into_def le_bytes_numeral ljust_def
      XTC_HEADER_SIZE_def TITLE_MAX_SIZE_def PAGE_TABLE_ENTRY_SIZE_def XTCH_MARK_def)

theorem write_xtc_container_table_witness:
  "(\<exists>file. write_xtc_container [white_row_page, white_row_page] [] example_metadata True = Inr file) \<and>
   field_at 8 24 (projr (write_xtc_container [white_row_page, white_row_page] [] example_metadata True)) = 184 \<and>
   field_at 8 32 (projr (write_xtc_container [white_row_page, white_row_page] [] example_metadata True)) = 216 \<and>
   field_at 2 6 (projr (write_xtc_container [white_row_page, white_row_page] [] example_metadata True)) = 2 \<and>
   entry_offset (projr (write_xtc_container [white_row_page, white_row_page] [] example_metadata True)) 0 = 216 \<and>
   entry_size (projr (write_xtc_container [white_row_page, white_row_page] [] example_metadata True)) 0 = 23 \<and>
   entry_offset (projr (write_xtc_container [white_row_page, white_row_page] [] example_metadata True)) 1 = 239 \<and>
   entry_width (projr (write_xtc_container [white_row_page, white_row_page] [] example_metadata True)) 1 = 8 \<and>
   entry_height (projr (write_xtc_container [white_row_page, white_row_page] [] example_metadata True)) 1 = 1"
proof -
  let ?blobs = "[white_row_page, white_row_page]"
  obtain f where w: "write_xtc_container ?blobs [] example_metadata True = Inr f"
    using example_container by blast
  note t = write_xtc_container_table [OF w]
  have page: "length white_row_page = 23" "field_at 2 4 white_row_page = 8"
    "field_at 2 6 white_row_page = 1"
    by (simp_all add: white_row_page_def field_at_def)
  have h: "field_at 8 24 f = 184" "field_at 8 32 f = 216" "field_at 2 6 f = 2"
    using t by simp_all
  have e0: "entry_offset f 0 = 216"
    using t h(2) by simp
  have s0: "entry_size f 0 = 23"
    using t page(1) by simp
  have "Suc 0 < length ?blobs" by simp
  then have "entry_offset f 0 + entry_size f 0 = entry_offset f (Suc 0)"
    using t by blast
  then have e1: "entry_offset f 1 = 239"
    using e0 s0 by simp
  have "(1 :: nat) < length ?blobs" by simp
  then have "entry_width f 1 = field_at 2 4 (?blobs ! 1) \<and>
      entry_height f 1 = field_at 2 6 (?blobs ! 1)"
    using t by blast
  then have d1: "entry_width f 1 = 8" "entry_height f 1 = 1"
    using page by simp_all
  show ?thesis
    unfolding w sum.sel using h e0 s0 e1 d1 by blast
qed

end
